theory Spec2Isabelle
  imports Main
begin

section \<open>Strings of the source language\<close>

text \<open>
  A string of the program is a sequence of UTF-16 code units, each given by its number
  (below 65536 in the program; the functions of the model treat larger numbers like
  other code units that are neither white space nor ASCII); \<open>length\<close> is the program's
  \<open>.length\<close>. String literals of the source are written with \<open>js\<close>.
\<close>

type_synonym jschar = nat
type_synonym jsstring = "nat list"

definition js :: "string \<Rightarrow> jsstring" where
  "js s = map of_char s"

text \<open>
  The characters that \<open>\s\<close> matches and that \<open>trim()\<close> removes: the white space and
  line terminator code points of the language.
\<close>

definition is_space :: "jschar \<Rightarrow> bool" where
  "is_space c = (c = 9 \<or> c = 10 \<or> c = 11 \<or> c = 12 \<or> c = 13 \<or> c = 32 \<or> c = 160 \<or>
     c = 5760 \<or> (8192 \<le> c \<and> c \<le> 8202) \<or> c = 8232 \<or> c = 8233 \<or> c = 8239 \<or>
     c = 8287 \<or> c = 12288 \<or> c = 65279)"

text \<open>The characters of \<open>\w\<close>: \<open>[A-Za-z0-9_]\<close>.\<close>

definition is_word :: "jschar \<Rightarrow> bool" where
  "is_word c = ((65 \<le> c \<and> c \<le> 90) \<or> (97 \<le> c \<and> c \<le> 122) \<or> (48 \<le> c \<and> c \<le> 57) \<or> c = 95)"

text \<open>\<open>String.prototype.trim\<close>.\<close>

definition trim :: "jsstring \<Rightarrow> jsstring" where
  "trim s = rev (dropWhile is_space (rev (dropWhile is_space s)))"

section \<open>Regular expressions\<close>

text \<open>
  The regular expressions of the source are written as terms of \<open>regex\<close> and run by a
  backtracking matcher that lists the ways a pattern can match at a position, in the
  order in which the language tries them (greedy quantifiers first, alternatives from
  left to right). A cursor is the code unit before the position (\<open>None\<close> at the start
  of the input) and the rest of the input.
\<close>

datatype regex =
    Eps
  | Cls "jschar \<Rightarrow> bool"
  | Bol
  | Wordb
  | Seq regex regex
  | Alt regex regex
  | Star regex

type_synonym cursor = "jschar option \<times> jsstring"

definition word_before :: "cursor \<Rightarrow> bool" where
  "word_before x = (case fst x of None \<Rightarrow> False | Some c \<Rightarrow> is_word c)"

definition word_after :: "cursor \<Rightarrow> bool" where
  "word_after x = (case snd x of [] \<Rightarrow> False | c # cs \<Rightarrow> is_word c)"

text \<open>
  An iteration of a starred pattern that consumes nothing is rejected: the matcher
  continues after an iteration only from a cursor with fewer code units left.
\<close>

function ms :: "regex \<Rightarrow> cursor \<Rightarrow> cursor list" where
  "ms Eps x = [x]"
| "ms (Cls P) x = (case snd x of [] \<Rightarrow> [] | c # cs \<Rightarrow> if P c then [(Some c, cs)] else [])"
| "ms Bol x = (if fst x = None then [x] else [])"
| "ms Wordb x = (if word_before x = word_after x then [] else [x])"
| "ms (Seq r1 r2) x = concat (map (ms r2) (ms r1 x))"
| "ms (Alt r1 r2) x = ms r1 x @ ms r2 x"
| "ms (Star r) x =
     concat (map (\<lambda>y. if length (snd y) < length (snd x) then ms (Star r) y else []) (ms r x)) @ [x]"
  by pat_completeness auto
termination
  by (relation "measures [\<lambda>(r, x). size r, \<lambda>(r, x). length (snd x)]") auto

definition first_match :: "regex \<Rightarrow> cursor \<Rightarrow> cursor option" where
  "first_match r x = (case ms r x of [] \<Rightarrow> None | y # ys \<Rightarrow> Some y)"

text \<open>
  \<open>String.prototype.replace\<close> with a global pattern and a replacement string without
  \<open>$\<close>: the scan starts at the beginning; where the pattern matches, the replacement is
  written and the scan continues after the match (one code unit further after an empty
  match); where it does not, the code unit is copied.
\<close>

function replace_all :: "regex \<Rightarrow> jsstring \<Rightarrow> cursor \<Rightarrow> jsstring" where
  "replace_all r rep (p, s) =
     (case first_match r (p, s) of
        Some (q, t) \<Rightarrow>
          if length t < length s then rep @ replace_all r rep (q, t)
          else rep @ (case s of [] \<Rightarrow> [] | c # cs \<Rightarrow> c # replace_all r rep (Some c, cs))
      | None \<Rightarrow> (case s of [] \<Rightarrow> [] | c # cs \<Rightarrow> c # replace_all r rep (Some c, cs)))"
  by pat_completeness auto
termination
  by (relation "measure (\<lambda>(r, rep, x). length (snd x))") auto

definition replace :: "regex \<Rightarrow> jsstring \<Rightarrow> jsstring \<Rightarrow> jsstring" where
  "replace r rep s = replace_all r rep (None, s)"

text \<open>
  \<open>String.prototype.match\<close> with a global pattern: the matched substrings from left to
  right (the caller reads the empty list as \<open>null\<close>).
\<close>

function match_all :: "regex \<Rightarrow> cursor \<Rightarrow> jsstring list" where
  "match_all r (p, s) =
     (case first_match r (p, s) of
        Some (q, t) \<Rightarrow>
          if length t < length s then take (length s - length t) s # match_all r (q, t)
          else [] # (case s of [] \<Rightarrow> [] | c # cs \<Rightarrow> match_all r (Some c, cs))
      | None \<Rightarrow> (case s of [] \<Rightarrow> [] | c # cs \<Rightarrow> match_all r (Some c, cs)))"
  by pat_completeness auto
termination
  by (relation "measure (\<lambda>(r, x). length (snd x))") auto

text \<open>\<open>String.prototype.match\<close> with a pattern that is not global, read as a truth value.\<close>

fun found_from :: "regex \<Rightarrow> jschar option \<Rightarrow> jsstring \<Rightarrow> bool" where
  "found_from r p [] = (ms r (p, []) \<noteq> [])"
| "found_from r p (c # cs) = (ms r (p, c # cs) \<noteq> [] \<or> found_from r (Some c) cs)"

definition found :: "regex \<Rightarrow> jsstring \<Rightarrow> bool" where
  "found r s = found_from r None s"

subsection \<open>Writing patterns\<close>

definition lit :: "jschar \<Rightarrow> regex" where
  "lit c = Cls (\<lambda>x. x = c)"

text \<open>
  Under the \<open>i\<close> flag (without \<open>u\<close>) two code units match when their upper-case forms
  agree, and a code unit outside ASCII never folds onto an ASCII one; all the patterns
  of the source written under \<open>i\<close> are ASCII.
\<close>

definition ascii_upper :: "jschar \<Rightarrow> jschar" where
  "ascii_upper c = (if 97 \<le> c \<and> c \<le> 122 then c - 32 else c)"

definition liti :: "jschar \<Rightarrow> regex" where
  "liti c = Cls (\<lambda>x. ascii_upper x = ascii_upper c)"

definition str :: "string \<Rightarrow> regex" where
  "str s = foldr (\<lambda>c. Seq (lit (of_char c))) s Eps"

definition stri :: "string \<Rightarrow> regex" where
  "stri s = foldr (\<lambda>c. Seq (liti (of_char c))) s Eps"

definition Plus :: "regex \<Rightarrow> regex" where
  "Plus r = Seq r (Star r)"

definition Opt :: "regex \<Rightarrow> regex" where
  "Opt r = Alt r Eps"

fun alts :: "regex list \<Rightarrow> regex" where
  "alts [] = Eps"
| "alts [r] = r"
| "alts (r # rs) = Alt r (alts rs)"

text \<open>\<open>[^\s]\<close>, \<open>[^\s&]\<close>, \<open>[a-z_]\<close> under \<open>i\<close>, and \<open>\w\<close>.\<close>

definition not_space :: regex where
  "not_space = Cls (\<lambda>c. \<not> is_space c)"

definition not_space_amp :: regex where
  "not_space_amp = Cls (\<lambda>c. \<not> is_space c \<and> c \<noteq> 38)"

definition letter_us :: regex where
  "letter_us = Cls (\<lambda>c. (97 \<le> c \<and> c \<le> 122) \<or> (65 \<le> c \<and> c \<le> 90) \<or> c = 95)"

definition word_char :: regex where
  "word_char = Cls is_word"

section \<open>The runtime the program runs in\<close>

text \<open>What the program and its runtime throw.\<close>

datatype error =
    ApiError nat
  | InvalidResponse
  | EmptyResult
  | TypeError
  | URIError
  | SyntaxError
  | FetchError
  | LibraryError
  | GoogleFailed
  | RangeError

text \<open>A parsed JSON value; the numbers of the model are the integers.\<close>

datatype json =
    JNull
  | JBool bool
  | JNum int
  | JStr jsstring
  | JArr "json list"
  | JObj "(jsstring \<times> json) list"

datatype lang = TR | EN

text \<open>
  The requests the translation service sends through the proxy: the GET to the Google
  endpoint (\<open>sl\<close>, \<open>tl\<close>, \<open>q\<close>) and the POST to the LibreTranslate endpoint
  (\<open>q\<close>, \<open>source\<close>, \<open>target\<close>).
\<close>

datatype outbound =
    GoogleGet lang lang jsstring
  | LibrePost jsstring lang lang

text \<open>
  What \<open>fetch\<close> gives: it rejects, or it resolves with a response that has an \<open>ok\<close>
  flag, a status and a body; the body is \<open>None\<close> when \<open>response.json()\<close> rejects.
\<close>

datatype fetched =
    FetchFailed
  | Response bool nat "json option"

text \<open>
  The parts of the program's environment that are not in the repository are parameters
  of the model:
  \<^item> \<open>cheerio_load html\<close>: the HTML library. \<open>Inl\<close> when it throws; otherwise the value of
    \<open>$('body').text()\<close> and of \<open>$.text()\<close> after \<open>$('script, style').remove()\<close>;
  \<^item> \<open>toLowerCase\<close>: the built-in \<open>String.prototype.toLowerCase\<close>;
  \<^item> \<open>String_of\<close>: the string the language makes of a JSON value that is not a string;
  \<^item> \<open>fetch_proxy\<close>: what the proxy answers to an outbound request;
  \<^item> \<open>fetch_google\<close>: what the Google endpoint answers to the HTTP endpoint's direct
    request for a text.
\<close>

record env =
  cheerio_load :: "jsstring \<Rightarrow> error + jsstring \<times> jsstring"
  toLowerCase :: "jsstring \<Rightarrow> jsstring"
  String_of :: "json \<Rightarrow> jsstring"
  fetch_proxy :: "outbound \<Rightarrow> fetched"
  fetch_google :: "jsstring \<Rightarrow> fetched"

section \<open>The translation providers\<close>

text \<open>
  Reading a property of a parsed object: the pairs are in the order of the JSON text,
  and of a key written twice the parser keeps the last value.
\<close>

definition property :: "jsstring \<Rightarrow> (jsstring \<times> json) list \<Rightarrow> json option" where
  "property k kvs = map_of (rev kvs) k"

text \<open>What the language reads as true in a condition.\<close>

fun truthy :: "json \<Rightarrow> bool" where
  "truthy JNull = False"
| "truthy (JBool b) = b"
| "truthy (JNum n) = (n \<noteq> 0)"
| "truthy (JStr s) = (s \<noteq> [])"
| "truthy (JArr xs) = True"
| "truthy (JObj fs) = True"

definition to_string :: "env \<Rightarrow> json \<Rightarrow> jsstring" where
  "to_string env v = (case v of JStr s \<Rightarrow> s | _ \<Rightarrow> String_of env v)"

text \<open>
  \<open>encodeURIComponent\<close> throws a \<open>URIError\<close> on a surrogate code unit that is not part
  of a pair; the encoded text itself only travels in the request.
\<close>

fun well_formed :: "jsstring \<Rightarrow> bool" where
  "well_formed [] = True"
| "well_formed (c # cs) =
     (if 55296 \<le> c \<and> c \<le> 56319 then
        (case cs of [] \<Rightarrow> False | d # ds \<Rightarrow> 56320 \<le> d \<and> d \<le> 57343 \<and> well_formed ds)
      else if 56320 \<le> c \<and> c \<le> 57343 then False
      else well_formed cs)"

text \<open>
  The loop of \<open>translateWithGoogle\<close> over \<open>data[0]\<close>: \<open>for (const item of data[0])\<close>
  throws a \<open>TypeError\<close> on a value that cannot be iterated; the items of a string are
  strings, which the loop body skips.
\<close>

definition items_of :: "json \<Rightarrow> error + json list" where
  "items_of d = (case d of JArr xs \<Rightarrow> Inr xs | JStr s \<Rightarrow> Inr [] | _ \<Rightarrow> Inl TypeError)"

fun fragments :: "env \<Rightarrow> json list \<Rightarrow> jsstring list" where
  "fragments env [] = []"
| "fragments env (item # items) =
     (case item of
        JArr (v # vs) \<Rightarrow> if truthy v then to_string env v # fragments env items else fragments env items
      | _ \<Rightarrow> fragments env items)"

definition source_of :: "lang \<Rightarrow> lang" where
  "source_of targetLang = (if targetLang = TR then EN else TR)"

definition translateWithGoogle :: "env \<Rightarrow> jsstring \<Rightarrow> lang \<Rightarrow> error + jsstring" where
  "translateWithGoogle env txt targetLang =
     (if \<not> well_formed txt then Inl URIError
      else case fetch_proxy env (GoogleGet (source_of targetLang) targetLang txt) of
        FetchFailed \<Rightarrow> Inl FetchError
      | Response ok status body \<Rightarrow>
          if \<not> ok then Inl (ApiError status)
          else (case body of
            None \<Rightarrow> Inl SyntaxError
          | Some (JArr (d0 # ds)) \<Rightarrow>
              (case items_of d0 of
                 Inl e \<Rightarrow> Inl e
               | Inr items \<Rightarrow>
                   let translation = concat (fragments env items)
                   in if translation = [] \<or> trim translation = [] then Inl EmptyResult
                      else Inr translation)
          | Some other \<Rightarrow> Inl InvalidResponse))"

text \<open>
  \<open>translateWithLibreTranslate\<close>: reading \<open>data.translatedText\<close> of \<open>null\<close> and calling
  \<open>trim\<close> on a value that is not a string throw a \<open>TypeError\<close>.
\<close>

definition translateWithLibreTranslate :: "env \<Rightarrow> jsstring \<Rightarrow> lang \<Rightarrow> error + jsstring" where
  "translateWithLibreTranslate env txt targetLang =
     (case fetch_proxy env (LibrePost txt (source_of targetLang) targetLang) of
        FetchFailed \<Rightarrow> Inl FetchError
      | Response ok status body \<Rightarrow>
          if \<not> ok then Inl (ApiError status)
          else (case body of
            None \<Rightarrow> Inl SyntaxError
          | Some JNull \<Rightarrow> Inl TypeError
          | Some (JObj kvs) \<Rightarrow>
              (case property (js ''translatedText'') kvs of
                 None \<Rightarrow> Inl EmptyResult
               | Some (JStr t) \<Rightarrow> if t = [] \<or> trim t = [] then Inl EmptyResult else Inr t
               | Some v \<Rightarrow> if truthy v then Inl TypeError else Inl EmptyResult)
          | Some other \<Rightarrow> Inl EmptyResult))"

section \<open>The sanitizer\<close>

definition rx_http :: regex where
  "rx_http = Seq (str ''http'') (Seq (Opt (lit (of_char CHR ''s''))) (Seq (str ''://'') (Plus not_space)))"

definition rx_www :: regex where
  "rx_www = Seq (str ''www.'') (Plus not_space)"

definition rx_tco :: regex where
  "rx_tco = Seq (str ''t.co/'') (Plus not_space)"

definition rx_source :: regex where
  "rx_source = Seq (stri ''source='')
     (Seq (alts (map stri [''twitter'', ''web'', ''facebook'', ''instagram'', ''reddit'', ''telegram'']))
          (Star not_space))"

text \<open>
  \<open>/utm_[a-z_]+=\[^\s&]*/gi\<close>: the bracket is escaped, so what follows is not a class
  but the assertion \<open>^\<close>, a white space, \<open>&\<close> and a run of \<open>]\<close>.
\<close>

definition rx_utm :: regex where
  "rx_utm = Seq (stri ''utm_'') (Seq (Plus letter_us) (Seq (lit (of_char CHR ''=''))
     (Seq (lit (of_char CHR ''['')) (Seq Bol (Seq (Cls is_space) (Seq (lit (of_char CHR ''&''))
        (Star (lit (of_char CHR '']'')))))))))"

definition rx_ref :: regex where
  "rx_ref = Seq (stri ''ref='') (Star not_space_amp)"

definition rx_query :: regex where
  "rx_query = Seq (lit (of_char CHR ''?'')) (Seq (Plus letter_us) (Seq (lit (of_char CHR ''=''))
     (Seq (Plus word_char)
        (Star (Seq (lit (of_char CHR ''&'')) (Seq (Plus letter_us) (Seq (lit (of_char CHR ''=''))
           (Plus word_char))))))))"

definition rx_rsvp :: regex where
  "rx_rsvp = stri ''RSVP:''"

definition rx_read_more :: regex where
  "rx_read_more = stri ''Read more:''"

definition rx_click_here :: regex where
  "rx_click_here = stri ''Click here:''"

text \<open>\<open>/\[...\]/g\<close> with the one-character ellipsis (U+2026), and with three dots.\<close>

definition rx_ellipsis :: regex where
  "rx_ellipsis = Seq (lit (of_char CHR ''['')) (Seq (lit 8230) (lit (of_char CHR '']'')))"

definition rx_dots :: regex where
  "rx_dots = str ''[...]''"

definition rx_spaces :: regex where
  "rx_spaces = Plus (Cls is_space)"

definition rx_blank_line :: regex where
  "rx_blank_line = Seq (lit 10) (Seq (Star (Cls is_space)) (lit 10))"

definition rx_tag :: regex where
  "rx_tag = Seq (lit (of_char CHR ''<'')) (Seq (Star (Cls (\<lambda>c. c \<noteq> 62))) (lit (of_char CHR ''>'')))"

text \<open>\<open>text.split('|')[0]\<close>.\<close>

definition before_pipe :: "jsstring \<Rightarrow> jsstring" where
  "before_pipe s = takeWhile (\<lambda>c. c \<noteq> 124) s"

text \<open>\<open>a || b\<close> on strings.\<close>

definition or_else :: "jsstring \<Rightarrow> jsstring \<Rightarrow> jsstring" where
  "or_else a b = (if a \<noteq> [] then a else b)"

text \<open>The patterns that \<open>stripHtml\<close> replaces by the empty string, in its order.\<close>

definition noise_patterns :: "regex list" where
  "noise_patterns = [rx_http, rx_www, rx_tco, rx_source, rx_utm, rx_ref, rx_query,
     rx_rsvp, rx_read_more, rx_click_here, rx_ellipsis, rx_dots]"

definition remove_noise :: "jsstring \<Rightarrow> jsstring" where
  "remove_noise s = foldl (\<lambda>t r. replace r [] t) s noise_patterns"

definition clean_whitespace :: "jsstring \<Rightarrow> jsstring" where
  "clean_whitespace s = trim (replace rx_blank_line [10] (replace rx_spaces [32] s))"

text \<open>The \<open>try\<close> block of \<open>stripHtml\<close> from the text of the document to the length test.\<close>

definition cleaned :: "jsstring \<Rightarrow> jsstring" where
  "cleaned t = clean_whitespace (remove_noise (or_else (before_pipe t) t))"

definition stripHtml :: "env \<Rightarrow> jsstring \<Rightarrow> jsstring" where
  "stripHtml env html =
     (case cheerio_load env html of
        Inr (bodyText, rootText) \<Rightarrow>
          let t = cleaned (or_else bodyText rootText)
          in if length t < 10 then [] else t
      | Inl e \<Rightarrow>
          or_else (before_pipe (replace rx_tag [32] html))
                  (trim (replace rx_spaces [32] (replace rx_http [] html))))"

section \<open>Translation to Turkish\<close>

text \<open>
  A call of \<open>translateToTurkish\<close> is modelled with the calls of \<open>translateWithGoogle\<close>
  and \<open>translateWithLibreTranslate\<close> it made, in order and each named by the request
  that function sends, and with what it settled with: \<open>Inl\<close> a rejection, \<open>Inr\<close> the
  string it returns.
\<close>

type_synonym outcome = "outbound list \<times> (error + jsstring)"

text \<open>The quality test the source applies to what a provider returned.\<close>

definition acceptable :: "env \<Rightarrow> jsstring \<Rightarrow> jsstring \<Rightarrow> bool" where
  "acceptable env cleanText translation =
     (translation \<noteq> [] \<and> toLowerCase env translation \<noteq> toLowerCase env cleanText \<and>
      10 < length translation)"

text \<open>The two provider steps and the fall-back to the cleaned text.\<close>

definition try_libre :: "env \<Rightarrow> jsstring \<Rightarrow> outcome" where
  "try_libre env cleanText =
     (case translateWithLibreTranslate env cleanText TR of
        Inr libreTranslation \<Rightarrow>
          if acceptable env cleanText libreTranslation
          then ([LibrePost cleanText EN TR], Inr libreTranslation)
          else ([LibrePost cleanText EN TR], Inr cleanText)
      | Inl libreError \<Rightarrow> ([LibrePost cleanText EN TR], Inr cleanText))"

definition try_providers :: "env \<Rightarrow> jsstring \<Rightarrow> outcome" where
  "try_providers env cleanText =
     (case translateWithGoogle env cleanText TR of
        Inr googleTranslation \<Rightarrow>
          if acceptable env cleanText googleTranslation
          then ([GoogleGet EN TR cleanText], Inr googleTranslation)
          else (GoogleGet EN TR cleanText # fst (try_libre env cleanText), snd (try_libre env cleanText))
      | Inl googleError \<Rightarrow>
          (GoogleGet EN TR cleanText # fst (try_libre env cleanText), snd (try_libre env cleanText)))"

text \<open>\<open>/[^.!?]+[.!?]+/g\<close>, and \<open>cleanText.match(...) || [cleanText]\<close>.\<close>

definition sentence_char :: "jschar \<Rightarrow> bool" where
  "sentence_char c = (c \<noteq> 46 \<and> c \<noteq> 33 \<and> c \<noteq> 63)"

definition sentence_end :: "jschar \<Rightarrow> bool" where
  "sentence_end c = (c = 46 \<or> c = 33 \<or> c = 63)"

definition rx_sentence :: regex where
  "rx_sentence = Seq (Plus (Cls sentence_char)) (Plus (Cls sentence_end))"

definition sentences :: "jsstring \<Rightarrow> jsstring list" where
  "sentences cleanText =
     (case match_all rx_sentence (None, cleanText) of [] \<Rightarrow> [cleanText] | m # rest \<Rightarrow> m # rest)"

definition maxChunkSize :: nat where
  "maxChunkSize = 500"

text \<open>The loop that packs the sentences: its state is \<open>chunks\<close> and \<open>currentChunk\<close>.\<close>

fun pack :: "jsstring list \<Rightarrow> jsstring list \<Rightarrow> jsstring \<Rightarrow> jsstring list \<times> jsstring" where
  "pack [] chunks currentChunk = (chunks, currentChunk)"
| "pack (sentence # rest) chunks currentChunk =
     (if length (currentChunk @ sentence) \<le> maxChunkSize
      then pack rest chunks (currentChunk @ sentence)
      else pack rest (if currentChunk \<noteq> [] then chunks @ [currentChunk] else chunks) sentence)"

definition chunks_of :: "jsstring \<Rightarrow> jsstring list" where
  "chunks_of cleanText =
     (case pack (sentences cleanText) [] [] of
        (chunks, currentChunk) \<Rightarrow> if currentChunk \<noteq> [] then chunks @ [currentChunk] else chunks)"

text \<open>
  The loop that translates the chunks one after the other. \<open>self\<close> is the recursive
  call; \<open>None\<close> would be a call that does not return, and a rejection ends the loop.
\<close>

fun translate_chunks ::
  "(jsstring \<Rightarrow> outcome option) \<Rightarrow> jsstring list \<Rightarrow> (outbound list \<times> (error + jsstring list)) option" where
  "translate_chunks self [] = Some ([], Inr [])"
| "translate_chunks self (chunk # rest) =
     (case self chunk of
        None \<Rightarrow> None
      | Some (calls, Inl e) \<Rightarrow> Some (calls, Inl e)
      | Some (calls, Inr translated) \<Rightarrow>
          (case translate_chunks self rest of
             None \<Rightarrow> None
           | Some (calls', Inl e) \<Rightarrow> Some (calls @ calls', Inl e)
           | Some (calls', Inr translatedChunks) \<Rightarrow>
               Some (calls @ calls', Inr (translated # translatedChunks))))"

text \<open>\<open>Array.prototype.join(' ')\<close> on strings.\<close>

fun join_space :: "jsstring list \<Rightarrow> jsstring" where
  "join_space [] = []"
| "join_space [x] = x"
| "join_space (x # xs) = x @ [32] @ join_space xs"

text \<open>The \<open>try\<close> block of \<open>translateToTurkish\<close>.\<close>

definition translate_body :: "env \<Rightarrow> (jsstring \<Rightarrow> outcome option) \<Rightarrow> jsstring \<Rightarrow> outcome option" where
  "translate_body env self txt =
     (if txt = [] \<or> trim txt = [] then Some ([], Inr txt)
      else let cleanText = stripHtml env txt in
        if cleanText = [] \<or> trim cleanText = [] then Some ([], Inr txt)
        else if maxChunkSize < length cleanText then
          (case translate_chunks self (chunks_of cleanText) of
             None \<Rightarrow> None
           | Some (calls, Inl e) \<Rightarrow> Some (calls, Inl e)
           | Some (calls, Inr translatedChunks) \<Rightarrow> Some (calls, Inr (join_space translatedChunks)))
        else Some (try_providers env cleanText))"

text \<open>
  \<open>translateToTurkish\<close> calls itself on every chunk, inside its \<open>try\<close>, and nothing in
  the program bounds the depth of these calls; the call stack of the engine does. The
  first argument of the model is the number of nested calls the stack still allows: a
  call made when none is left fails with a \<open>RangeError\<close>, which reaches the caller at
  its \<open>await\<close>. The \<open>catch\<close> of the function returns \<open>stripHtml(text)\<close>.
\<close>

fun translateToTurkish :: "env \<Rightarrow> nat \<Rightarrow> jsstring \<Rightarrow> outcome option" where
  "translateToTurkish env 0 txt = Some ([], Inl RangeError)"
| "translateToTurkish env (Suc n) txt =
     (case translate_body env (translateToTurkish env n) txt of
        None \<Rightarrow> None
      | Some (calls, Inl e) \<Rightarrow> Some (calls, Inr (stripHtml env txt))
      | Some (calls, Inr translation) \<Rightarrow> Some (calls, Inr translation))"

definition translateText :: "env \<Rightarrow> nat \<Rightarrow> jsstring \<Rightarrow> lang \<Rightarrow> outcome option" where
  "translateText env n txt targetLang =
     (if targetLang = EN then Some ([], Inr (stripHtml env txt)) else translateToTurkish env n txt)"

section \<open>Batches\<close>





section \<open>Sentiment\<close>

datatype sentiment = Positive | Negative | Neutral

record SummaryWithSentiment =
  summary :: jsstring
  sentiment :: sentiment

definition rx_positive :: regex where
  "rx_positive = Seq Wordb (Seq (alts (map stri [''up'', ''rise'', ''gain'', ''bull'', ''surge'',
     ''rally'', ''boost'', ''grow'', ''positive'', ''profit'', ''success'', ''launch'', ''partner'',
     ''adoption''])) Wordb)"

definition rx_negative :: regex where
  "rx_negative = Seq Wordb (Seq (alts (map stri [''down'', ''fall'', ''drop'', ''bear'', ''crash'',
     ''decline'', ''loss'', ''negative'', ''hack'', ''scam'', ''fail'', ''lawsuit'', ''ban'',
     ''regulate''])) Wordb)"

text \<open>The content the keywords are searched in: \<open>`${title} ${text || ''}`.toLowerCase()\<close>.\<close>

definition content_of :: "env \<Rightarrow> jsstring \<Rightarrow> jsstring option \<Rightarrow> jsstring" where
  "content_of env title body =
     toLowerCase env (title @ [32] @ (case body of None \<Rightarrow> [] | Some t \<Rightarrow> t))"

definition sentiment_of :: "env \<Rightarrow> jsstring \<Rightarrow> jsstring option \<Rightarrow> sentiment" where
  "sentiment_of env title body =
     (let content = content_of env title body;
          s = Neutral;
          s = (if found rx_positive content then Positive else s);
          s = (if found rx_negative content then Negative else s)
      in s)"

definition summarizeInEnglish :: "env \<Rightarrow> jsstring \<Rightarrow> jsstring option \<Rightarrow> SummaryWithSentiment" where
  "summarizeInEnglish env title body =
     \<lparr>summary = title, sentiment = sentiment_of env title body\<rparr>"

definition summarizeAndTranslate ::
  "env \<Rightarrow> nat \<Rightarrow> jsstring \<Rightarrow> jsstring option \<Rightarrow> SummaryWithSentiment option" where
  "summarizeAndTranslate env n title body =
     (case translateToTurkish env n title of
        None \<Rightarrow> None
      | Some (calls, Inl e) \<Rightarrow> Some \<lparr>summary = title, sentiment = Neutral\<rparr>
      | Some (calls, Inr translatedTitle) \<Rightarrow>
          Some \<lparr>summary = (if translatedTitle \<noteq> [] \<and> 8 < length translatedTitle
                            then translatedTitle else title),
                sentiment = sentiment_of env title body\<rparr>)"

section \<open>The HTTP endpoint\<close>

text \<open>The endpoint has a sanitizer and a Google client of its own.\<close>

definition route_stripHtml :: "env \<Rightarrow> jsstring \<Rightarrow> jsstring" where
  "route_stripHtml env html =
     (case cheerio_load env html of
        Inr (bodyText, rootText) \<Rightarrow> clean_whitespace (or_else bodyText rootText)
      | Inl e \<Rightarrow> trim (replace rx_spaces [32] (replace rx_tag [32] html)))"

text \<open>The endpoint's \<open>translateWithGoogle\<close> returns \<open>null\<close> (\<open>None\<close>) where it fails.\<close>

definition route_translateWithGoogle :: "env \<Rightarrow> jsstring \<Rightarrow> jsstring option" where
  "route_translateWithGoogle env txt =
     (if \<not> well_formed txt then None
      else case fetch_google env txt of
        FetchFailed \<Rightarrow> None
      | Response ok status body \<Rightarrow>
          if \<not> ok then None
          else (case body of
            None \<Rightarrow> None
          | Some (JArr (d0 # ds)) \<Rightarrow>
              (case items_of d0 of
                 Inl e \<Rightarrow> None
               | Inr items \<Rightarrow> Some (concat (fragments env items)))
          | Some other \<Rightarrow> None))"

text \<open>
  A request has no body, a body that is not JSON, or a body that is; and it records
  whether the body has been read. \<open>request.json()\<close> reads the body: a body can be read
  once, and reading it again rejects with a \<open>TypeError\<close>; without a body there is
  nothing to read, the request stays unused and the parse of the empty text fails.
\<close>

datatype payload = NoBody | NotJson | Json json

record request =
  req_body :: payload
  bodyUsed :: bool

definition request_json :: "request \<Rightarrow> (error + json) \<times> request" where
  "request_json req =
     (if bodyUsed req then (Inl TypeError, req)
      else case req_body req of
        NoBody \<Rightarrow> (Inl SyntaxError, req)
      | NotJson \<Rightarrow> (Inl SyntaxError, req\<lparr>bodyUsed := True\<rparr>)
      | Json j \<Rightarrow> (Inr j, req\<lparr>bodyUsed := True\<rparr>))"

text \<open>Reading the property \<open>text\<close> of a parsed body: \<open>None\<close> is \<open>undefined\<close>.\<close>

definition text_of :: "json \<Rightarrow> error + json option" where
  "text_of j =
     (case j of
        JNull \<Rightarrow> Inl TypeError
      | JObj kvs \<Rightarrow> Inr (property (js ''text'') kvs)
      | _ \<Rightarrow> Inr None)"

text \<open>\<open>NextResponse.json\<close>: the status and the fields \<open>error\<close> and \<open>translation\<close>.\<close>

datatype reply = Reply nat "jsstring option" "jsstring option"

text \<open>The \<open>try\<close> block of \<open>POST\<close> after the body has been parsed.\<close>

definition POST_try :: "env \<Rightarrow> json \<Rightarrow> error + reply" where
  "POST_try env parsed =
     (case text_of parsed of
        Inl e \<Rightarrow> Inl e
      | Inr (Some (JStr t)) \<Rightarrow>
          if t = [] \<or> trim t = [] then Inr (Reply 400 (Some (js ''Invalid text provided'')) None)
          else let cleanText = route_stripHtml env t in
            if trim cleanText = [] then Inr (Reply 200 None (Some t))
            else (case route_translateWithGoogle env cleanText of
                    None \<Rightarrow> Inl GoogleFailed
                  | Some translation \<Rightarrow>
                      if translation = [] then Inl GoogleFailed
                      else Inr (Reply 200 None (Some (route_stripHtml env translation))))
      | Inr other \<Rightarrow> Inr (Reply 400 (Some (js ''Invalid text provided'')) None))"

text \<open>
  \<open>POST\<close>: \<open>Inl\<close> when the handler itself rejects. Its \<open>catch\<close> reads the body of the
  request again for the text to clean; the sanitizer of the model is defined on strings
  only, and a text that is not a string counts as a failure there.
\<close>

definition POST :: "env \<Rightarrow> request \<Rightarrow> error + reply" where
  "POST env req =
     (case request_json req of
        (first, req1) \<Rightarrow>
          (case (case first of Inl e \<Rightarrow> Inl e | Inr parsed \<Rightarrow> POST_try env parsed) of
             Inr r \<Rightarrow> Inr r
           | Inl err \<Rightarrow>
               (case request_json req1 of
                  (Inl e, req2) \<Rightarrow> Inl e
                | (Inr again, req2) \<Rightarrow>
                    (case text_of again of
                       Inl e \<Rightarrow> Inl e
                     | Inr (Some (JStr t)) \<Rightarrow>
                         Inr (Reply 500 (Some (js ''Translation failed'')) (Some (route_stripHtml env t)))
                     | Inr other \<Rightarrow> Inl TypeError))))"

section \<open>Environments for concrete runs\<close>

text \<open>
  The string the language makes of a parsed JSON value (an integer that its number
  type holds exactly and that has fewer than 22 digits is printed in decimal; an array
  is its elements joined by commas, \<open>null\<close> among them printed as nothing).
\<close>

fun digits :: "nat \<Rightarrow> jsstring" where
  "digits n = (if n < 10 then [48 + n] else digits (n div 10) @ [48 + n mod 10])"

fun join_comma :: "jsstring list \<Rightarrow> jsstring" where
  "join_comma [] = []"
| "join_comma [x] = x"
| "join_comma (x # xs) = x @ [44] @ join_comma xs"

fun js_String :: "json \<Rightarrow> jsstring" where
  "js_String JNull = js ''null''"
| "js_String (JBool b) = (if b then js ''true'' else js ''false'')"
| "js_String (JNum n) = (if n < 0 then 45 # digits (nat (- n)) else digits (nat n))"
| "js_String (JStr s) = s"
| "js_String (JArr xs) = join_comma (map (\<lambda>x. if x = JNull then [] else js_String x) xs)"
| "js_String (JObj kvs) = js ''[object Object]''"

text \<open>
  For inputs that are plain ASCII text without markup: the HTML library gives back the
  text, \<open>toLowerCase\<close> folds the ASCII letters, and the network is given.
\<close>

definition ascii_lower :: "jsstring \<Rightarrow> jsstring" where
  "ascii_lower s = map (\<lambda>c. if 65 \<le> c \<and> c \<le> 90 then c + 32 else c) s"

definition plain_env :: "(outbound \<Rightarrow> fetched) \<Rightarrow> (jsstring \<Rightarrow> fetched) \<Rightarrow> env" where
  "plain_env proxy google =
     \<lparr>cheerio_load = (\<lambda>html. Inr (html, html)), toLowerCase = ascii_lower,
      String_of = js_String, fetch_proxy = proxy, fetch_google = google\<rparr>"

text \<open>No network: every request fails.\<close>

definition offline :: "'a \<Rightarrow> fetched" where
  "offline request = FetchFailed"


text \<open>An HTML library that finds the text \<open>t\<close> in the document, and no network.\<close>

definition markup_env :: "jsstring \<Rightarrow> env" where
  "markup_env t = plain_env offline offline\<lparr>cheerio_load := (\<lambda>html. Inr (t, t))\<rparr>"

text \<open>An HTML library that throws on every document, and no network.\<close>

definition broken_env :: env where
  "broken_env = plain_env offline offline\<lparr>cheerio_load := (\<lambda>html. Inl LibraryError)\<rparr>"

text \<open>A headline and a translation of it, for concrete runs.\<close>

definition headline :: jsstring where
  "headline = js ''Bitcoin price rises''"


text \<open>A fresh request whose body is an object with the field \<open>text\<close>.\<close>

definition text_request :: "json \<Rightarrow> request" where
  "text_request v = \<lparr>req_body = Json (JObj [(js ''text'', v)]), bodyUsed = False\<rparr>"

text \<open>Two texts with doubled white space.\<close>

definition spaced_phrase :: jsstring where
  "spaced_phrase = js ''Read  more: prices rally today''"

definition spaced_headline :: jsstring where
  "spaced_headline = js ''Bitcoin  price rises''"

section \<open>Notions of the properties\<close>

text \<open>
  A provider fails when it throws or when what it returns does not pass the quality
  test.
\<close>

definition provider_failed :: "env \<Rightarrow> jsstring \<Rightarrow> error + jsstring \<Rightarrow> bool" where
  "provider_failed env cleanText r = (case r of Inl e \<Rightarrow> True | Inr t \<Rightarrow> \<not> acceptable env cleanText t)"

text \<open>The cursor after the longest run of code units of a class.\<close>

fun run_end :: "(jschar \<Rightarrow> bool) \<Rightarrow> cursor \<Rightarrow> cursor" where
  "run_end P (p, []) = (p, [])"
| "run_end P (p, c # cs) = (if P c then run_end P (Some c, cs) else (p, c # cs))"

text \<open>
  Code units that are no white space, no \<open>|\<close> and not the first code unit of a match of
  any pattern the sanitizer removes.
\<close>

definition inert :: "jschar \<Rightarrow> bool" where
  "inert c = (\<not> is_space c \<and> c \<noteq> 104 \<and> c \<noteq> 119 \<and> c \<noteq> 116 \<and> c \<noteq> 115 \<and> c \<noteq> 83 \<and>
     c \<noteq> 117 \<and> c \<noteq> 85 \<and> c \<noteq> 114 \<and> c \<noteq> 82 \<and> c \<noteq> 63 \<and> c \<noteq> 99 \<and> c \<noteq> 67 \<and>
     c \<noteq> 91 \<and> c \<noteq> 124)"

text \<open>
  Two long inputs: 501 times the letter a, and 499 times the letter a followed by a full
  stop and the letter b.
\<close>

definition unbroken :: jsstring where
  "unbroken = replicate 501 97"

definition trailing :: jsstring where
  "trailing = replicate 499 97 @ [46, 98]"

definition first_sentence :: jsstring where
  "first_sentence = replicate 499 97 @ [46]"

text \<open>
  What the replacement of \<open>/\s+/g\<close> by one space computes, and the strings it leaves as
  they are: every white space character is a space and is not followed by another one.
\<close>

function collapse :: "jsstring \<Rightarrow> jsstring" where
  "collapse [] = []"
| "collapse (c # cs) = (if is_space c then 32 # collapse (dropWhile is_space cs) else c # collapse cs)"
  by pat_completeness auto
termination
  by (relation "measure length") (auto simp: length_dropWhile_le less_Suc_eq_le)

fun tidy :: "jsstring \<Rightarrow> bool" where
  "tidy [] = True"
| "tidy (c # cs) =
     ((if is_space c then c = 32 \<and> (case cs of [] \<Rightarrow> True | d # ds \<Rightarrow> \<not> is_space d) else True) \<and> tidy cs)"

text \<open>
  A text is free of noise patterns when it has no \<open>|\<close> and none of the patterns the
  sanitizer removes matches in it; it is free of markup, for an HTML library, when the
  library finds the text itself in it.
\<close>

definition noise_free :: "jsstring \<Rightarrow> bool" where
  "noise_free s = (124 \<notin> set s \<and> list_all (\<lambda>r. \<not> found r s) noise_patterns)"

definition markup_free :: "env \<Rightarrow> jsstring \<Rightarrow> bool" where
  "markup_free env s = (cheerio_load env s = Inr (s, s))"

section \<open>Evaluation rules\<close>

text \<open>
  The equations of the scanning functions are used at strings whose first code unit is
  known.
\<close>

declare digits.simps [simp del]

declare replace_all.simps [simp del]

declare match_all.simps [simp del]

lemma replace_all_Nil [simp]:
  "replace_all r rep (p, []) = (case first_match r (p, []) of Some y \<Rightarrow> rep | None \<Rightarrow> [])"
  by (subst replace_all.simps) (simp split: option.splits)

lemma replace_all_Cons [simp]:
  "replace_all r rep (p, c # cs) =
     (case first_match r (p, c # cs) of
        Some (q, t) \<Rightarrow>
          if length t < Suc (length cs) then rep @ replace_all r rep (q, t)
          else rep @ c # replace_all r rep (Some c, cs)
      | None \<Rightarrow> c # replace_all r rep (Some c, cs))"
  by (subst replace_all.simps) (simp split: option.splits)

lemma match_all_Nil [simp]:
  "match_all r (p, []) = (case first_match r (p, []) of Some y \<Rightarrow> [[]] | None \<Rightarrow> [])"
  by (subst match_all.simps) (simp split: option.splits)

lemma match_all_Cons [simp]:
  "match_all r (p, c # cs) =
     (case first_match r (p, c # cs) of
        Some (q, t) \<Rightarrow>
          if length t < Suc (length cs) then take (Suc (length cs) - length t) (c # cs) # match_all r (q, t)
          else [] # match_all r (Some c, cs)
      | None \<Rightarrow> match_all r (Some c, cs))"
  by (subst match_all.simps) (simp split: option.splits)

text \<open>The definitions a concrete run unfolds.\<close>

lemmas rx_helpers = lit_def liti_def str_def stri_def Plus_def Opt_def not_space_def
  not_space_amp_def letter_us_def word_char_def ascii_upper_def is_space_def is_word_def
  first_match_def word_before_def word_after_def

lemmas noise_defs = noise_patterns_def rx_http_def rx_www_def rx_tco_def rx_source_def rx_utm_def
  rx_ref_def rx_query_def rx_rsvp_def rx_read_more_def rx_click_here_def rx_ellipsis_def rx_dots_def

lemmas sanitize_defs = cleaned_def clean_whitespace_def remove_noise_def
  or_else_def before_pipe_def replace_def trim_def rx_spaces_def rx_blank_line_def rx_tag_def

section \<open>Facts about the matcher\<close>

lemma replace_all_not_found: "\<not> found_from r p s \<Longrightarrow> replace_all r rep (p, s) = s"
  by (induction s arbitrary: p) (auto simp: first_match_def split: list.splits)

lemma replace_not_found: "\<not> found r s \<Longrightarrow> replace r rep s = s"
  by (simp add: found_def replace_def replace_all_not_found)

lemma not_found_from:
  assumes "\<And>q. ms r (q, []) = []" "\<And>q c cs. c \<in> set s \<Longrightarrow> ms r (q, c # cs) = []"
  shows "\<not> found_from r p s"
  using assms(2) by (induction s arbitrary: p) (auto simp: assms(1))

lemma ms_Seq_empty: "ms a x = [] \<Longrightarrow> ms (Seq a r) x = []"
  by simp

lemma ms_lit_Nil: "ms (lit d) (q, []) = []"
  by (simp add: lit_def)

lemma ms_liti_Nil: "ms (liti d) (q, []) = []"
  by (simp add: liti_def)

lemma ms_lit_other: "c \<noteq> d \<Longrightarrow> ms (lit d) (q, c # cs) = []"
  by (simp add: lit_def)

lemma ms_liti_other: "ascii_upper c \<noteq> ascii_upper d \<Longrightarrow> ms (liti d) (q, c # cs) = []"
  by (simp add: liti_def)

lemma ms_Cls_other: "\<not> P c \<Longrightarrow> ms (Cls P) (q, c # cs) = []"
  by simp

lemma ms_Cls_Nil: "ms (Cls P) (q, []) = []"
  by simp

lemmas first_unit = ms_Seq_empty ms_lit_Nil ms_liti_Nil ms_lit_other ms_liti_other

lemma ms_star_cls_Nil: "ms (Star (Cls P)) (p, []) = [(p, [])]"
  by simp

lemma ms_star_cls_Cons:
  "ms (Star (Cls P)) (p, c # cs) =
     (if P c then ms (Star (Cls P)) (Some c, cs) @ [(p, c # cs)] else [(p, c # cs)])"
  by simp

lemma ms_star_cls:
  "\<exists>ys. ms (Star (Cls P)) (p, s) = run_end P (p, s) # ys \<and>
        (\<forall>y \<in> set ys. \<exists>c cs. snd y = c # cs \<and> P c)"
proof (induction s arbitrary: p)
  case Nil
  show ?case by simp
next
  case (Cons c cs)
  show ?case
  proof (cases "P c")
    case True
    obtain ys where ys: "ms (Star (Cls P)) (Some c, cs) = run_end P (Some c, cs) # ys"
      "\<forall>y \<in> set ys. \<exists>c cs. snd y = c # cs \<and> P c"
      using Cons.IH [of "Some c"] by blast
    have "ms (Star (Cls P)) (p, c # cs) = run_end P (p, c # cs) # (ys @ [(p, c # cs)])"
      using True ys(1) by (simp add: ms_star_cls_Cons del: ms.simps)
    moreover have "\<forall>y \<in> set (ys @ [(p, c # cs)]). \<exists>c cs. snd y = c # cs \<and> P c"
      using True ys(2) by auto
    ultimately show ?thesis by blast
  next
    case False
    then show ?thesis by (simp add: ms_star_cls_Cons del: ms.simps)
  qed
qed

lemma concat_map_Nil: "(\<And>y. y \<in> set ys \<Longrightarrow> f y = []) \<Longrightarrow> concat (map f ys) = []"
  by (induction ys) auto

lemma seq_star_cls:
  assumes "\<And>q c cs. P c \<Longrightarrow> ms k (q, c # cs) = []"
  shows "ms (Seq (Star (Cls P)) k) x = ms k (run_end P x)"
proof -
  obtain p s where x: "x = (p, s)" by (cases x)
  obtain ys where ys: "ms (Star (Cls P)) (p, s) = run_end P (p, s) # ys"
      "\<forall>y \<in> set ys. \<exists>c cs. snd y = c # cs \<and> P c"
    using ms_star_cls by blast
  have "concat (map (ms k) ys) = []"
  proof (rule concat_map_Nil)
    fix y assume "y \<in> set ys"
    then obtain c cs where "snd y = c # cs" "P c" using ys(2) by blast
    then show "ms k y = []" using assms [of c "fst y" cs] by (cases y) simp
  qed
  then show ?thesis using ys(1) x by simp
qed

lemma ms_star_cls_hd: "first_match (Star (Cls P)) x = Some (run_end P x)"
proof -
  obtain p s where x: "x = (p, s)" by (cases x)
  show ?thesis using ms_star_cls [of P p s] x by (auto simp: first_match_def)
qed

lemma ms_plus_cls_Nil: "ms (Plus (Cls P)) (p, []) = []"
  by (simp add: Plus_def)

lemma ms_plus_cls_Cons:
  "ms (Plus (Cls P)) (p, c # cs) = (if P c then ms (Star (Cls P)) (Some c, cs) else [])"
  by (simp add: Plus_def del: ms.simps(7))

lemma run_end_all: "\<forall>c \<in> set s. P c \<Longrightarrow> snd (run_end P (p, s)) = []"
  by (induction s arbitrary: p) auto

lemma run_end_stop: "s = [] \<or> \<not> P (hd s) \<Longrightarrow> run_end P (p, s) = (p, s)"
  by (cases s) auto

lemma run_end_append:
  "\<forall>c \<in> set u. P c \<Longrightarrow> u \<noteq> [] \<Longrightarrow> run_end P (p, u @ v) = run_end P (Some (last u), v)"
  by (induction u arbitrary: p) auto

lemma run_end_snd: "snd (run_end P (p, s)) = dropWhile P s"
  by (induction s arbitrary: p) auto

section \<open>Sentences\<close>

lemma rx_sentence_Nil: "ms rx_sentence (p, []) = []"
  by (simp add: rx_sentence_def Plus_def)

lemma rx_sentence_Cons:
  "ms rx_sentence (p, c # cs) =
     (if sentence_char c then ms (Plus (Cls sentence_end)) (run_end sentence_char (Some c, cs)) else [])"
proof -
  have k: "ms (Plus (Cls sentence_end)) (q, d # ds) = []" if "sentence_char d" for q d ds
    using that by (simp add: ms_plus_cls_Cons sentence_char_def sentence_end_def del: ms.simps)
  have "ms (Seq (Star (Cls sentence_char)) (Plus (Cls sentence_end))) x = ms (Plus (Cls sentence_end)) (run_end sentence_char x)" for x
    by (rule seq_star_cls) (rule k)
  then have s: "concat (map (ms (Plus (Cls sentence_end))) (ms (Star (Cls sentence_char)) x)) =
             ms (Plus (Cls sentence_end)) (run_end sentence_char x)" for x
    by simp
  have r: "rx_sentence = Seq (Seq (Cls sentence_char) (Star (Cls sentence_char))) (Plus (Cls sentence_end))"
    by (simp add: rx_sentence_def Plus_def sentence_char_def sentence_end_def)
  show ?thesis
    unfolding r by (simp add: s del: ms.simps(7))
qed

lemma first_match_sentence_none:
  "\<forall>c \<in> set s. sentence_char c \<Longrightarrow> first_match rx_sentence (p, s) = None"
proof (cases s)
  case Nil
  then show ?thesis by (simp add: first_match_def rx_sentence_Nil)
next
  case (Cons c cs)
  assume a: "\<forall>c \<in> set s. sentence_char c"
  then have "snd (run_end sentence_char (Some c, cs)) = []" using Cons by (intro run_end_all) simp
  then obtain q where "run_end sentence_char (Some c, cs) = (q, [])"
    by (cases "run_end sentence_char (Some c, cs)") simp
  then show ?thesis using Cons a
    by (simp add: first_match_def rx_sentence_Cons ms_plus_cls_Nil del: ms.simps)
qed

lemma match_all_sentence_none:
  "\<forall>c \<in> set s. sentence_char c \<Longrightarrow> match_all rx_sentence (p, s) = []"
  by (induction s arbitrary: p) (simp_all add: first_match_sentence_none)

lemma first_match_sentence_one:
  assumes "\<forall>c \<in> set u. sentence_char c" "u \<noteq> []" "sentence_end d" "v = [] \<or> sentence_char (hd v)"
  shows "first_match rx_sentence (p, u @ d # v) = Some (Some d, v)"
proof -
  obtain c cs where u: "u = c # cs" using assms(2) by (cases u) auto
  have t: "\<not> sentence_char d" using assms(3) by (auto simp: sentence_char_def sentence_end_def)
  have "run_end sentence_char (Some c, cs @ d # v) = (Some (last u), d # v)"
  proof (cases "cs = []")
    case True
    then show ?thesis using t u by simp
  next
    case False
    then have "run_end sentence_char (Some c, cs @ d # v) = run_end sentence_char (Some (last cs), d # v)"
      using assms(1) u by (intro run_end_append) auto
    then show ?thesis using t u False by simp
  qed
  moreover have "first_match (Star (Cls sentence_end)) (Some d, v) = Some (Some d, v)"
  proof -
    have "v = [] \<or> \<not> sentence_end (hd v)" using assms(4) by (auto simp: sentence_char_def sentence_end_def)
    then show ?thesis by (simp add: ms_star_cls_hd run_end_stop)
  qed
  ultimately show ?thesis using assms(1,3) u
    by (simp add: first_match_def rx_sentence_Cons ms_plus_cls_Cons del: ms.simps)
qed

lemma match_all_sentence_one:
  assumes "\<forall>c \<in> set u. sentence_char c" "u \<noteq> []" "sentence_end d" "\<forall>c \<in> set v. sentence_char c"
  shows "match_all rx_sentence (p, u @ d # v) = [u @ [d]]"
proof -
  obtain c cs where u: "u = c # cs" using assms(2) by (cases u) auto
  have "v = [] \<or> sentence_char (hd v)" using assms(4) by (cases v) auto
  then have f: "first_match rx_sentence (p, c # cs @ d # v) = Some (Some d, v)"
    using first_match_sentence_one [OF assms(1,2,3), of v p] u by simp
  show ?thesis
    using u by (simp add: f match_all_sentence_none [OF assms(4)])
qed

section \<open>White space\<close>

lemma dropWhile_fix: "xs = [] \<or> \<not> P (hd xs) \<Longrightarrow> dropWhile P xs = xs"
  by (cases xs) auto

lemma trim_Nil: "trim [] = []"
  by (simp add: trim_def)

lemma trim_trim: "trim (trim s) = trim s"
proof -
  define u where "u = dropWhile is_space s"
  define w where "w = dropWhile is_space (rev u)"
  have t: "trim s = rev w" by (simp add: trim_def u_def w_def)
  have w: "dropWhile is_space w = w" by (simp add: w_def)
  show ?thesis
  proof (cases "w = []")
    case True
    then show ?thesis by (simp add: t trim_Nil)
  next
    case False
    have split: "rev u = takeWhile is_space (rev u) @ w" by (simp add: w_def)
    then have "u = rev w @ rev (takeWhile is_space (rev u))"
      by (metis rev_append rev_rev_ident)
    then have "hd u = hd (rev w)" using False by (metis hd_append2 rev_is_Nil_conv)
    moreover have "u \<noteq> []" using False by (auto simp: w_def)
    then have "\<not> is_space (hd u)" unfolding u_def by (metis hd_dropWhile)
    ultimately have "dropWhile is_space (rev w) = rev w" by (intro dropWhile_fix) simp
    then have "trim (rev w) = rev w" by (simp add: trim_def w)
    then show ?thesis by (simp add: t)
  qed
qed

lemma trim_id: "s = [] \<or> (\<not> is_space (hd s) \<and> \<not> is_space (last s)) \<Longrightarrow> trim s = s"
proof (cases "s = []")
  case True
  then show ?thesis by (simp add: trim_Nil)
next
  case False
  assume "s = [] \<or> (\<not> is_space (hd s) \<and> \<not> is_space (last s))"
  then have h: "\<not> is_space (hd s)" "\<not> is_space (last s)" using False by auto
  have 1: "dropWhile is_space s = s" using h(1) by (intro dropWhile_fix) simp
  have "hd (rev s) = last s" using False by (simp add: hd_rev)
  then have 2: "dropWhile is_space (rev s) = rev s" using h(2) by (intro dropWhile_fix) simp
  show ?thesis by (simp add: trim_def 1 2)
qed

lemma first_match_spaces_Cons:
  "first_match rx_spaces (p, c # cs) =
     (if is_space c then Some (run_end is_space (Some c, cs)) else None)"
proof (cases "is_space c")
  case True
  have "first_match (Star (Cls is_space)) (Some c, cs) = Some (run_end is_space (Some c, cs))"
    by (rule ms_star_cls_hd)
  then show ?thesis using True
    by (simp add: first_match_def rx_spaces_def ms_plus_cls_Cons del: ms.simps)
next
  case False
  then show ?thesis
    by (simp add: first_match_def rx_spaces_def ms_plus_cls_Cons del: ms.simps)
qed

lemma first_match_spaces_Nil: "first_match rx_spaces (p, []) = None"
  by (simp add: first_match_def rx_spaces_def ms_plus_cls_Nil del: ms.simps)

lemma replace_all_spaces: "replace_all rx_spaces [32] (p, s) = collapse s"
proof (induction s arbitrary: p rule: length_induct)
  case (1 s)
  show ?case
  proof (cases s)
    case Nil
    then show ?thesis by (simp add: first_match_spaces_Nil)
  next
    case (Cons c cs)
    show ?thesis
    proof (cases "is_space c")
      case True
      obtain q t where r: "run_end is_space (Some c, cs) = (q, t)"
        by (cases "run_end is_space (Some c, cs)")
      have t: "t = dropWhile is_space cs" using run_end_snd [of is_space "Some c" cs] r by simp
      then have len: "length t < Suc (length cs)"
        by (simp add: length_dropWhile_le less_Suc_eq_le)
      then have "replace_all rx_spaces [32] (q, t) = collapse t"
        using 1 Cons by simp
      then show ?thesis using True Cons r len t
        by (simp add: first_match_spaces_Cons)
    next
      case False
      have "replace_all rx_spaces [32] (Some c, cs) = collapse cs"
        using 1 Cons by simp
      then show ?thesis using False Cons by (simp add: first_match_spaces_Cons)
    qed
  qed
qed

lemma replace_spaces: "replace rx_spaces [32] s = collapse s"
  by (simp add: replace_def replace_all_spaces)

lemma spaces_not_found: "\<forall>c \<in> set s. \<not> is_space c \<Longrightarrow> \<not> found rx_spaces s"
  unfolding found_def
  by (rule not_found_from) (auto simp: rx_spaces_def Plus_def simp del: ms.simps(7))

lemma blank_line_not_found:
  assumes "10 \<notin> set s"
  shows "\<not> found rx_blank_line s"
  unfolding found_def
proof (rule not_found_from)
  show "ms rx_blank_line (q, []) = []" for q
    by (simp add: rx_blank_line_def first_unit del: ms.simps)
next
  fix q c cs
  assume "c \<in> set s"
  then have "c \<noteq> 10" using assms by auto
  then show "ms rx_blank_line (q, c # cs) = []"
    by (simp add: rx_blank_line_def first_unit del: ms.simps)
qed

lemma collapse_hd: "s = [] \<or> \<not> is_space (hd s) \<Longrightarrow> collapse s = [] \<or> \<not> is_space (hd (collapse s))"
  by (cases s) auto

lemma tidy_collapse: "tidy (collapse s)"
proof (induction s rule: collapse.induct)
  case 1
  show ?case by simp
next
  case (2 c cs)
  show ?case
  proof (cases "is_space c")
    case True
    let ?r = "collapse (dropWhile is_space cs)"
    have "dropWhile is_space cs = [] \<or> \<not> is_space (hd (dropWhile is_space cs))"
      by (metis hd_dropWhile)
    then have "?r = [] \<or> \<not> is_space (hd ?r)" by (rule collapse_hd)
    then have "case ?r of [] \<Rightarrow> True | d # ds \<Rightarrow> \<not> is_space d" by (cases ?r) auto
    moreover have "is_space 32" by (simp add: is_space_def)
    ultimately show ?thesis using True 2 by simp
  next
    case False
    then show ?thesis using 2 by simp
  qed
qed

lemma tidy_dropWhile_head:
  "tidy (c # cs) \<Longrightarrow> is_space c \<Longrightarrow> dropWhile is_space cs = cs"
  by (cases cs) auto

lemma collapse_tidy: "tidy s \<Longrightarrow> collapse s = s"
proof (induction s)
  case Nil
  show ?case by simp
next
  case (Cons c cs)
  then have cs: "collapse cs = cs" by simp
  show ?case
  proof (cases "is_space c")
    case True
    then have "dropWhile is_space cs = cs" using Cons.prems by (rule tidy_dropWhile_head [rotated])
    moreover have "c = 32" using True Cons.prems by simp
    ultimately show ?thesis using True cs by simp
  next
    case False
    then show ?thesis using cs by simp
  qed
qed

lemma tidy_no_newline: "tidy s \<Longrightarrow> 10 \<notin> set s"
proof (induction s)
  case Nil
  show ?case by simp
next
  case (Cons c cs)
  have "is_space 10" by (simp add: is_space_def)
  then have "c \<noteq> 10" using Cons.prems by auto
  then show ?case using Cons by simp
qed

lemma tidy_append_left: "tidy (xs @ ys) \<Longrightarrow> tidy xs"
proof (induction xs)
  case Nil
  show ?case by simp
next
  case (Cons c xs)
  then have "tidy xs" by simp
  moreover have "case xs of [] \<Rightarrow> True | d # ds \<Rightarrow> \<not> is_space d" if "is_space c"
    using Cons.prems that by (cases xs) auto
  ultimately show ?case using Cons.prems by simp
qed

lemma tidy_append_right: "tidy (xs @ ys) \<Longrightarrow> tidy ys"
  by (induction xs) auto

lemma tidy_trim: "tidy s \<Longrightarrow> tidy (trim s)"
proof -
  assume t: "tidy s"
  define u where "u = dropWhile is_space s"
  have "s = takeWhile is_space s @ u" by (simp add: u_def)
  then have u: "tidy u" using t tidy_append_right by metis
  have "rev u = takeWhile is_space (rev u) @ dropWhile is_space (rev u)" by simp
  then have "u = rev (dropWhile is_space (rev u)) @ rev (takeWhile is_space (rev u))"
    by (metis rev_append rev_rev_ident)
  then have "tidy (rev (dropWhile is_space (rev u)))" using u tidy_append_left by metis
  then show ?thesis by (simp add: trim_def u_def)
qed

lemma clean_whitespace_collapse: "clean_whitespace s = trim (collapse s)"
proof -
  have "10 \<notin> set (collapse s)" by (rule tidy_no_newline) (rule tidy_collapse)
  then have "replace rx_blank_line [10] (collapse s) = collapse s"
    by (intro replace_not_found blank_line_not_found)
  then show ?thesis by (simp add: clean_whitespace_def replace_spaces)
qed

lemma clean_whitespace_idem: "clean_whitespace (clean_whitespace s) = clean_whitespace s"
proof -
  have "tidy (trim (collapse s))" by (intro tidy_trim tidy_collapse)
  then have "collapse (trim (collapse s)) = trim (collapse s)" by (rule collapse_tidy)
  then show ?thesis by (simp add: clean_whitespace_collapse trim_trim)
qed

section \<open>The sanitizer\<close>

lemma stripHtml_parsed:
  "cheerio_load env html = Inr (b, r) \<Longrightarrow>
   stripHtml env html = (if length (cleaned (or_else b r)) < 10 then [] else cleaned (or_else b r))"
  by (simp add: stripHtml_def Let_def)

lemma stripHtml_plain:
  "stripHtml (plain_env proxy google) html = (if length (cleaned html) < 10 then [] else cleaned html)"
  by (simp add: stripHtml_parsed [of _ _ html html] plain_env_def or_else_def)

lemma stripHtml_parsed_not_blank:
  assumes "cheerio_load env html = Inr (b, r)" "stripHtml env html \<noteq> []"
  shows "trim (stripHtml env html) \<noteq> []"
proof -
  have "stripHtml env html = cleaned (or_else b r)"
    using assms by (auto simp: stripHtml_parsed split: if_splits)
  moreover have "trim (cleaned t) = cleaned t" for t
    by (simp add: cleaned_def clean_whitespace_def trim_trim)
  ultimately show ?thesis using assms(2) by simp
qed

lemma noise_Nil: "r \<in> set noise_patterns \<Longrightarrow> ms r (q, []) = []"
  by (auto simp: noise_defs str_def stri_def first_unit simp del: ms.simps)

lemma inert_upper:
  "inert c \<Longrightarrow> ascii_upper c \<noteq> 83 \<and> ascii_upper c \<noteq> 85 \<and> ascii_upper c \<noteq> 82 \<and> ascii_upper c \<noteq> 67"
  by (auto simp: inert_def ascii_upper_def)

lemma upper_values:
  "ascii_upper 115 = 83" "ascii_upper 117 = 85" "ascii_upper 114 = 82" "ascii_upper 82 = 82"
  "ascii_upper 67 = 67"
  by (simp_all add: ascii_upper_def)

lemma noise_inert:
  assumes "r \<in> set noise_patterns" "inert c"
  shows "ms r (q, c # cs) = []"
proof -
  have c: "c \<noteq> 104" "c \<noteq> 119" "c \<noteq> 116" "c \<noteq> 63" "c \<noteq> 91"
    using assms(2) by (simp_all add: inert_def)
  have u: "ascii_upper c \<noteq> 83" "ascii_upper c \<noteq> 85" "ascii_upper c \<noteq> 82" "ascii_upper c \<noteq> 67"
    using inert_upper [OF assms(2)] by simp_all
  show ?thesis
    using assms(1)
    by (auto simp: noise_defs str_def stri_def first_unit upper_values c u simp del: ms.simps)
qed

lemma noise_not_found:
  assumes "r \<in> set noise_patterns" "\<forall>c \<in> set s. inert c"
  shows "\<not> found r s"
  unfolding found_def
  by (rule not_found_from) (use assms in \<open>auto simp: noise_Nil noise_inert\<close>)

lemma remove_noise_id:
  assumes "\<forall>r \<in> set noise_patterns. \<not> found r s"
  shows "remove_noise s = s"
proof -
  have "foldl (\<lambda>t r. replace r [] t) s rs = s" if "set rs \<subseteq> set noise_patterns" for rs
    using that assms by (induction rs) (auto simp: replace_not_found)
  then show ?thesis by (simp add: remove_noise_def)
qed

lemma inert_facts: "inert c \<Longrightarrow> \<not> is_space c \<and> c \<noteq> 124 \<and> c \<noteq> 10"
  by (auto simp: inert_def is_space_def)

lemma trim_inert: "\<forall>c \<in> set s. inert c \<Longrightarrow> trim s = s"
  by (rule trim_id) (use inert_facts in \<open>cases "s = []"; auto\<close>)

lemma cleaned_inert:
  assumes "\<forall>c \<in> set s. inert c"
  shows "cleaned s = s"
proof -
  have ns: "\<forall>c \<in> set s. \<not> is_space c" and np: "124 \<notin> set s" and nl: "10 \<notin> set s"
    using assms inert_facts by blast+
  have 1: "or_else (before_pipe s) s = s"
  proof -
    have "before_pipe s = s" unfolding before_pipe_def using np by (intro takeWhile_eq_all_conv [THEN iffD2]) auto
    then show ?thesis by (simp add: or_else_def)
  qed
  have 2: "remove_noise s = s"
    by (rule remove_noise_id) (use assms noise_not_found in blast)
  have 3: "replace rx_spaces [32] s = s"
    by (rule replace_not_found) (rule spaces_not_found [OF ns])
  have 4: "replace rx_blank_line [10] s = s"
    by (rule replace_not_found) (rule blank_line_not_found [OF nl])
  have 5: "trim s = s"
  proof (rule trim_id)
    show "s = [] \<or> \<not> is_space (hd s) \<and> \<not> is_space (last s)"
      using ns by (cases "s = []") auto
  qed
  show ?thesis by (simp add: cleaned_def clean_whitespace_def 1 2 3 4 5)
qed

lemma cleaned_noise_free: "noise_free s \<Longrightarrow> cleaned s = clean_whitespace s"
proof -
  assume n: "noise_free s"
  then have "before_pipe s = s"
    unfolding before_pipe_def noise_free_def
    by (intro takeWhile_eq_all_conv [THEN iffD2]) auto
  then have 1: "or_else (before_pipe s) s = s" by (simp add: or_else_def)
  have 2: "remove_noise s = s"
    by (rule remove_noise_id) (use n in \<open>simp add: noise_free_def list_all_iff\<close>)
  show ?thesis by (simp add: cleaned_def 1 2)
qed

lemma cleaned_Nil: "cleaned [] = []"
proof -
  have "noise_free []"
    by (auto simp: noise_free_def list_all_iff found_def noise_Nil)
  then have "cleaned [] = clean_whitespace []" by (rule cleaned_noise_free)
  then show ?thesis by (simp add: clean_whitespace_collapse trim_Nil)
qed

lemma stripHtml_markup_free:
  "markup_free env s \<Longrightarrow> stripHtml env s = (if length (cleaned s) < 10 then [] else cleaned s)"
  by (simp add: markup_free_def stripHtml_parsed [of env s s s] or_else_def)

lemma markup_free_plain: "markup_free (plain_env proxy google) s"
  by (simp add: markup_free_def plain_env_def)

section \<open>The concrete texts\<close>

lemma cleaned_Hi: "cleaned (js ''Hi'') = js ''Hi''"
  by (simp add: sanitize_defs noise_defs rx_helpers js_def)

lemma cleaned_headline: "cleaned headline = headline"
  by (simp add: headline_def sanitize_defs noise_defs rx_helpers js_def)

lemma trim_headline: "trim headline = headline"
  by (simp add: headline_def trim_def is_space_def js_def)

lemma length_headline: "length headline = 19"
  by (simp add: headline_def js_def)

lemma stripHtml_headline: "stripHtml (plain_env proxy google) headline = headline"
  by (simp add: stripHtml_plain cleaned_headline length_headline)

lemma well_formed_headline: "well_formed headline"
  by (simp add: headline_def js_def)

lemma noise_free_headline: "noise_free headline"
  by (simp add: noise_free_def headline_def found_def noise_defs rx_helpers js_def)

lemma noise_free_spaced_headline: "noise_free spaced_headline"
  by (simp add: noise_free_def spaced_headline_def found_def noise_defs rx_helpers js_def)

lemma clean_whitespace_spaced_headline: "clean_whitespace spaced_headline = headline"
  by (simp add: spaced_headline_def headline_def sanitize_defs rx_helpers js_def)

lemma noise_free_spaced_phrase: "noise_free spaced_phrase"
  by (simp add: noise_free_def spaced_phrase_def found_def noise_defs rx_helpers js_def)

lemma cleaned_spaced_phrase: "cleaned spaced_phrase = js ''Read more: prices rally today''"
  by (simp add: spaced_phrase_def sanitize_defs noise_defs rx_helpers js_def)

lemma cleaned_phrase: "cleaned (js ''Read more: prices rally today'') = js ''prices rally today''"
  by (simp add: sanitize_defs noise_defs rx_helpers js_def)


lemma inert_letters: "inert 97" "inert 98" "inert 46"
  by (simp_all add: inert_def is_space_def)

lemma sentence_letters: "sentence_char 97" "sentence_char 98" "sentence_end 46"
  by (simp_all add: sentence_char_def sentence_end_def)

lemma unbroken_facts:
  "length unbroken = 501" "\<forall>c \<in> set unbroken. inert c" "\<forall>c \<in> set unbroken. sentence_char c"
  "unbroken \<noteq> []"
  by (auto simp: unbroken_def inert_letters sentence_letters)

lemma cleaned_unbroken: "cleaned unbroken = unbroken"
  by (rule cleaned_inert) (rule unbroken_facts)

lemma trim_unbroken: "trim unbroken = unbroken"
  by (rule trim_id) (simp add: unbroken_def is_space_def)

lemma stripHtml_unbroken: "stripHtml (plain_env proxy google) unbroken = unbroken"
  by (simp add: stripHtml_plain cleaned_unbroken unbroken_facts)

lemma sentences_unbroken: "sentences unbroken = [unbroken]"
  by (simp add: sentences_def match_all_sentence_none unbroken_facts)

lemma chunks_of_unbroken: "chunks_of unbroken = [unbroken]"
  by (simp add: chunks_of_def sentences_unbroken maxChunkSize_def unbroken_facts)

lemma trailing_split: "trailing = replicate 499 97 @ 46 # [98]" "trailing = first_sentence @ [98]"
  by (simp_all add: trailing_def first_sentence_def)

lemma trailing_facts:
  "length trailing = 501" "\<forall>c \<in> set trailing. inert c" "trailing \<noteq> []"
  by (auto simp: trailing_def inert_letters)

lemma first_sentence_facts:
  "length first_sentence = 500" "\<forall>c \<in> set first_sentence. inert c" "first_sentence \<noteq> []"
  by (auto simp: first_sentence_def inert_letters)

lemma stripHtml_trailing: "stripHtml (plain_env proxy google) trailing = trailing"
  by (simp add: stripHtml_plain cleaned_inert trailing_facts)

lemma stripHtml_first_sentence: "stripHtml (plain_env proxy google) first_sentence = first_sentence"
  by (simp add: stripHtml_plain cleaned_inert first_sentence_facts)

lemma sentences_trailing: "sentences trailing = [first_sentence]"
proof -
  have "match_all rx_sentence (None, replicate 499 97 @ 46 # [98]) = [replicate 499 97 @ [46]]"
    by (rule match_all_sentence_one) (auto simp: sentence_letters)
  then show ?thesis by (simp add: sentences_def trailing_split(1) first_sentence_def)
qed

lemma chunks_of_trailing: "chunks_of trailing = [first_sentence]"
  by (simp add: chunks_of_def sentences_trailing maxChunkSize_def first_sentence_facts)

section \<open>Idempotence of the sanitizer\<close>

text \<open>
  Claim C7, as amended. For a text that is free of markup and of noise patterns, and
  whose form after the white space clean-up is free of them as well, sanitizing twice
  gives what sanitizing once gives (the HTML library finding no text in the empty
  document). Without the condition on the cleaned-up form the property fails:
  collapsing white space can complete a noise pattern, as in "Read  more:" written
  with two spaces, which is shown after the theorem.
\<close>

theorem stripHtml_idempotent_when_normal_form_clean:
  assumes "markup_free env x" "noise_free x"
    and "markup_free env (clean_whitespace x)" "noise_free (clean_whitespace x)"
    and "markup_free env []"
  shows "stripHtml env (stripHtml env x) = stripHtml env x"
proof -
  let ?t = "clean_whitespace x"
  have c: "cleaned x = ?t" using assms(2) by (rule cleaned_noise_free)
  have ct: "cleaned ?t = ?t"
    using cleaned_noise_free [OF assms(4)] by (simp add: clean_whitespace_idem)
  have s: "stripHtml env x = (if length ?t < 10 then [] else ?t)"
    using stripHtml_markup_free [OF assms(1)] by (simp add: c)
  show ?thesis
  proof (cases "length ?t < 10")
    case True
    then show ?thesis
      using stripHtml_markup_free [OF assms(5)] by (simp add: s cleaned_Nil)
  next
    case False
    then show ?thesis
      using stripHtml_markup_free [OF assms(3)] by (simp add: s ct)
  qed
qed

theorem stripHtml_idempotent_when_normal_form_clean_witness:
  "noise_free spaced_headline \<and> clean_whitespace spaced_headline = headline \<and> noise_free headline \<and>
   stripHtml (plain_env offline offline) spaced_headline = headline \<and>
   stripHtml (plain_env offline offline) (stripHtml (plain_env offline offline) spaced_headline) =
     stripHtml (plain_env offline offline) spaced_headline"
proof -
  let ?env = "plain_env offline offline"
  have "cleaned spaced_headline = headline"
    using cleaned_noise_free [OF noise_free_spaced_headline]
    by (simp add: clean_whitespace_spaced_headline)
  then have s: "stripHtml ?env spaced_headline = headline"
    by (simp add: stripHtml_plain length_headline)
  have "stripHtml ?env (stripHtml ?env spaced_headline) = stripHtml ?env spaced_headline"
    by (rule stripHtml_idempotent_when_normal_form_clean)
       (simp_all add: markup_free_plain noise_free_spaced_headline noise_free_headline
          clean_whitespace_spaced_headline)
  then show ?thesis
    by (simp add: noise_free_spaced_headline noise_free_headline clean_whitespace_spaced_headline s)
qed

text \<open>
  "Read  more: prices rally today", with two spaces after Read, has no markup and no
  match of a noise pattern. Sanitizing it once collapses the spaces; sanitizing the
  result removes "Read more:".
\<close>

theorem stripHtml_not_idempotent:
  "markup_free (plain_env offline offline) spaced_phrase \<and>
   noise_free spaced_phrase \<and>
   stripHtml (plain_env offline offline) spaced_phrase = js ''Read more: prices rally today'' \<and>
   stripHtml (plain_env offline offline) (stripHtml (plain_env offline offline) spaced_phrase) =
     js ''prices rally today'' \<and>
   stripHtml (plain_env offline offline) (stripHtml (plain_env offline offline) spaced_phrase) \<noteq>
     stripHtml (plain_env offline offline) spaced_phrase"
proof -
  have 1: "stripHtml (plain_env offline offline) spaced_phrase = js ''Read more: prices rally today''"
    by (simp add: stripHtml_plain cleaned_spaced_phrase) (simp add: js_def)
  have 2: "stripHtml (plain_env offline offline) (js ''Read more: prices rally today'') =
      js ''prices rally today''"
    by (simp add: stripHtml_plain cleaned_phrase) (simp add: js_def)
  have 3: "js ''prices rally today'' \<noteq> js ''Read more: prices rally today''"
    by (simp add: js_def)
  show ?thesis
    by (simp add: markup_free_plain noise_free_spaced_phrase 1 2 3)
qed

section \<open>The provider chain\<close>

lemma try_libre_returns: "\<exists>t. snd (try_libre env c) = Inr t"
  by (simp add: try_libre_def split: sum.splits)

lemma try_providers_returns: "\<exists>t. snd (try_providers env c) = Inr t"
  using try_libre_returns [of env c] by (auto simp: try_providers_def split: sum.splits)

lemma translateToTurkish_short:
  assumes "trim txt \<noteq> []" "trim (stripHtml env txt) \<noteq> []" "length (stripHtml env txt) \<le> 500"
  shows "translateToTurkish env (Suc n) txt = Some (try_providers env (stripHtml env txt))"
proof -
  have ne: "txt \<noteq> []" "stripHtml env txt \<noteq> []" using assms by (auto simp: trim_def)
  obtain calls t where r: "try_providers env (stripHtml env txt) = (calls, Inr t)"
    using try_providers_returns [of env "stripHtml env txt"]
    by (cases "try_providers env (stripHtml env txt)") auto
  have "translate_body env (translateToTurkish env n) txt = Some (calls, Inr t)"
    using assms ne r by (simp add: translate_body_def maxChunkSize_def Let_def)
  then show ?thesis using r by simp
qed

lemma translateToTurkish_never_rejects: "translateToTurkish env (Suc n) txt \<noteq> Some (calls, Inl e)"
  by (auto split: option.splits sum.splits prod.splits)

lemma translate_chunks_returns:
  "(\<And>chunk. self chunk \<noteq> None) \<Longrightarrow> translate_chunks self chunks \<noteq> None"
proof (induction chunks)
  case Nil
  show ?case by simp
next
  case (Cons chunk chunks)
  obtain calls v where s: "self chunk = Some (calls, v)"
    using Cons.prems [of chunk] by (cases "self chunk") auto
  obtain calls' v' where r: "translate_chunks self chunks = Some (calls', v')"
    using Cons by (cases "translate_chunks self chunks") auto
  show ?case by (cases v; cases v') (simp_all add: s r)
qed

lemma translate_body_returns:
  "(\<And>chunk. self chunk \<noteq> None) \<Longrightarrow> translate_body env self txt \<noteq> None"
  using translate_chunks_returns [of self "chunks_of (stripHtml env txt)"]
  by (auto simp: translate_body_def Let_def split: option.splits sum.splits prod.splits)

lemma translateToTurkish_returns: "translateToTurkish env n txt \<noteq> None"
proof (induction n arbitrary: "txt")
  case 0
  show ?case by simp
next
  case (Suc n)
  have "translate_body env (translateToTurkish env n) txt \<noteq> None"
    by (rule translate_body_returns) (rule Suc)
  then show ?case by (auto split: option.splits sum.splits prod.splits)
qed

lemma translateToTurkish_returns_string:
  "\<exists>calls s. translateToTurkish env (Suc n) txt = Some (calls, Inr s)"
proof -
  obtain calls v where r: "translateToTurkish env (Suc n) txt = Some (calls, v)"
    using translateToTurkish_returns [of env "Suc n" "txt"]
    by (cases "translateToTurkish env (Suc n) txt") auto
  have "v \<noteq> Inl e" for e
    using translateToTurkish_never_rejects [of env n "txt" calls e] r by simp
  then obtain s where "v = Inr s" by (cases v) auto
  then show ?thesis using r by blast
qed





text \<open>
  Claim C2. For an input that is not blank and whose sanitized form is not empty and at
  most 500 characters long, if both providers fail (each throws, or returns what the
  quality test rejects), \<open>translateToTurkish\<close> returns the sanitized input, after one
  call of each provider. (When the HTML library throws, the fall-back of the sanitizer
  does not trim, and the sanitized form is required not to be blank.)
\<close>

theorem both_providers_fail_passthrough:
  assumes "trim txt \<noteq> []"
    and "cleanText = stripHtml env txt"
    and "cleanText \<noteq> []"
    and "(\<exists>b r. cheerio_load env txt = Inr (b, r)) \<or> trim cleanText \<noteq> []"
    and "length cleanText \<le> 500"
    and "provider_failed env cleanText (translateWithGoogle env cleanText TR)"
    and "provider_failed env cleanText (translateWithLibreTranslate env cleanText TR)"
  shows "translateToTurkish env (Suc n) txt =
           Some ([GoogleGet EN TR cleanText, LibrePost cleanText EN TR], Inr cleanText)"
proof -
  have nb: "trim (stripHtml env txt) \<noteq> []"
    using assms(2,3,4) stripHtml_parsed_not_blank by auto
  have "try_libre env cleanText = ([LibrePost cleanText EN TR], Inr cleanText)"
    using assms(7) by (auto simp: try_libre_def provider_failed_def split: sum.splits)
  then have "try_providers env cleanText =
               ([GoogleGet EN TR cleanText, LibrePost cleanText EN TR], Inr cleanText)"
    using assms(6) by (auto simp: try_providers_def provider_failed_def split: sum.splits)
  then show ?thesis
    using translateToTurkish_short [OF assms(1) nb] assms(2,5) by simp
qed

theorem both_providers_fail_passthrough_witness:
  "translateToTurkish (plain_env offline offline) (Suc 0) headline =
     Some ([GoogleGet EN TR headline, LibrePost headline EN TR], Inr headline)"
proof -
  let ?env = "plain_env offline offline"
  have g: "provider_failed ?env headline (translateWithGoogle ?env headline TR)"
    by (simp add: provider_failed_def translateWithGoogle_def well_formed_headline plain_env_def
          offline_def)
  have l: "provider_failed ?env headline (translateWithLibreTranslate ?env headline TR)"
    by (simp add: provider_failed_def translateWithLibreTranslate_def plain_env_def offline_def)
  have c: "\<exists>b r. cheerio_load ?env headline = Inr (b, r)"
    by (simp add: plain_env_def)
  show ?thesis
    using both_providers_fail_passthrough [of headline headline ?env 0] g l c
    by (simp add: trim_headline stripHtml_headline length_headline) (simp add: headline_def js_def)
qed



section \<open>Inputs that are not translated\<close>

text \<open>
  Claim C10. For an input that is empty or only white space, or whose sanitized form is
  empty (which it is when fewer than 10 characters are left after cleaning),
  \<open>translateToTurkish\<close> returns the input as it was given, markup included, and no
  provider is called.
\<close>

theorem blank_or_unclean_input_returned_raw:
  assumes "trim txt = [] \<or> stripHtml env txt = [] \<or>
           (\<exists>b r. cheerio_load env txt = Inr (b, r) \<and> length (cleaned (or_else b r)) < 10)"
  shows "translateToTurkish env (Suc n) txt = Some ([], Inr txt)"
proof -
  have "trim txt = [] \<or> stripHtml env txt = []"
    using assms by (auto simp: stripHtml_parsed)
  then have "translate_body env (translateToTurkish env n) txt = Some ([], Inr txt)"
    by (auto simp: translate_body_def Let_def)
  then show ?thesis by simp
qed

theorem blank_or_unclean_input_returned_raw_witness:
  "stripHtml (markup_env (js ''Hi'')) (js ''<b>Hi</b>'') = [] \<and>
   translateToTurkish (markup_env (js ''Hi'')) (Suc 0) (js ''<b>Hi</b>'') = Some ([], Inr (js ''<b>Hi</b>''))"
proof -
  have c: "cheerio_load (markup_env (js ''Hi'')) (js ''<b>Hi</b>'') = Inr (js ''Hi'', js ''Hi'')"
    by (simp add: markup_env_def plain_env_def)
  have h: "stripHtml (markup_env (js ''Hi'')) (js ''<b>Hi</b>'') = []"
    by (simp add: stripHtml_parsed [OF c] or_else_def cleaned_Hi) (simp add: js_def)
  show ?thesis
    using blank_or_unclean_input_returned_raw [of "js ''<b>Hi</b>''" "markup_env (js ''Hi'')" 0] h
    by simp
qed

section \<open>Long texts\<close>

lemma pack_concat:
  "concat (fst (pack ss chunks cur)) @ snd (pack ss chunks cur) = concat chunks @ cur @ concat ss"
  by (induction ss arbitrary: chunks cur) auto

lemma concat_chunks_of: "concat (chunks_of t) = concat (sentences t)"
  using pack_concat [of "sentences t" "[]" "[]"]
  by (cases "pack (sentences t) [] []") (auto simp: chunks_of_def)

lemma pack_bound:
  assumes "\<forall>s \<in> set ss. length s \<le> maxChunkSize" "\<forall>c \<in> set chunks. length c \<le> maxChunkSize"
    "length cur \<le> maxChunkSize"
  shows "(\<forall>c \<in> set (fst (pack ss chunks cur)). length c \<le> maxChunkSize) \<and>
         length (snd (pack ss chunks cur)) \<le> maxChunkSize"
  using assms
proof (induction ss arbitrary: chunks cur)
  case Nil
  then show ?case by (simp only: pack.simps fst_conv snd_conv)
next
  case (Cons s ss)
  have rest: "\<forall>s \<in> set ss. length s \<le> maxChunkSize" and s: "length s \<le> maxChunkSize"
    using Cons.prems(1) by simp_all
  show ?case
  proof (cases "length (cur @ s) \<le> maxChunkSize")
    case True
    have eq: "pack (s # ss) chunks cur = pack ss chunks (cur @ s)"
      using True by (simp only: pack.simps if_True)
    show ?thesis unfolding eq by (rule Cons.IH [OF rest Cons.prems(2) True])
  next
    case False
    let ?chunks = "if cur \<noteq> [] then chunks @ [cur] else chunks"
    have eq: "pack (s # ss) chunks cur = pack ss ?chunks s"
      using False by (simp only: pack.simps if_False)
    have c: "\<forall>c \<in> set ?chunks. length c \<le> maxChunkSize"
      using Cons.prems(2,3) by auto
    show ?thesis unfolding eq by (rule Cons.IH [OF rest c s])
  qed
qed

lemma chunks_of_bound:
  assumes "\<forall>s \<in> set (sentences t). length s \<le> maxChunkSize"
  shows "\<forall>c \<in> set (chunks_of t). length c \<le> maxChunkSize"
proof -
  obtain chunks cur where p: "pack (sentences t) [] [] = (chunks, cur)"
    by (cases "pack (sentences t) [] []")
  have "(\<forall>c \<in> set (fst (pack (sentences t) [] [])). length c \<le> maxChunkSize) \<and>
        length (snd (pack (sentences t) [] [])) \<le> maxChunkSize"
    by (rule pack_bound [OF assms]) simp_all
  then have "(\<forall>c \<in> set chunks. length c \<le> maxChunkSize) \<and> length cur \<le> maxChunkSize"
    by (simp add: p)
  then show ?thesis by (simp add: chunks_of_def p)
qed

lemma translate_chunks_all:
  "list_all2 (\<lambda>chunk out. self chunk = Some (fst out, Inr (snd out))) chunks outs \<Longrightarrow>
   translate_chunks self chunks = Some (concat (map fst outs), Inr (map snd outs))"
  by (induction chunks outs rule: list_all2_induct) auto

lemma translate_chunks_single:
  "translate_chunks self [chunk] =
     (case self chunk of
        None \<Rightarrow> None
      | Some (calls, Inl e) \<Rightarrow> Some (calls, Inl e)
      | Some (calls, Inr translated) \<Rightarrow> Some (calls, Inr [translated]))"
  by (simp split: option.splits sum.splits prod.splits)

lemma translateToTurkish_long:
  assumes "trim txt \<noteq> []" "trim (stripHtml env txt) \<noteq> []" "500 < length (stripHtml env txt)"
  shows "translateToTurkish env (Suc n) txt =
     (case translate_chunks (translateToTurkish env n) (chunks_of (stripHtml env txt)) of
        None \<Rightarrow> None
      | Some (calls, Inl e) \<Rightarrow> Some (calls, Inr (stripHtml env txt))
      | Some (calls, Inr translatedChunks) \<Rightarrow> Some (calls, Inr (join_space translatedChunks)))"
proof -
  have ne: "txt \<noteq> []" "stripHtml env txt \<noteq> []" using assms by (auto simp: trim_Nil)
  show ?thesis using assms ne
    by (simp add: translate_body_def maxChunkSize_def Let_def split: option.splits sum.splits prod.splits)
qed

lemma translateToTurkish_unbroken:
  "translateToTurkish (plain_env proxy google) (Suc n) unbroken = Some ([], Inr unbroken)"
proof (induction n)
  case 0
  let ?env = "plain_env proxy google"
  have a: "trim unbroken \<noteq> []" by (simp add: trim_unbroken unbroken_facts)
  have b: "trim (stripHtml ?env unbroken) \<noteq> []"
    by (simp add: stripHtml_unbroken trim_unbroken unbroken_facts)
  have c: "500 < length (stripHtml ?env unbroken)"
    by (simp add: stripHtml_unbroken unbroken_facts)
  note long = translateToTurkish_long [OF a b c, of 0,
      unfolded stripHtml_unbroken chunks_of_unbroken translate_chunks_single]
  show ?case unfolding long by simp
next
  case (Suc n)
  let ?env = "plain_env proxy google"
  have a: "trim unbroken \<noteq> []" by (simp add: trim_unbroken unbroken_facts)
  have b: "trim (stripHtml ?env unbroken) \<noteq> []"
    by (simp add: stripHtml_unbroken trim_unbroken unbroken_facts)
  have c: "500 < length (stripHtml ?env unbroken)"
    by (simp add: stripHtml_unbroken unbroken_facts)
  note long = translateToTurkish_long [OF a b c, of "Suc n",
      unfolded stripHtml_unbroken chunks_of_unbroken translate_chunks_single Suc]
  show ?case unfolding long by simp
qed

lemma stripHtml_broken_headline: "stripHtml broken_env headline = headline"
  by (simp add: stripHtml_def broken_env_def plain_env_def headline_def sanitize_defs rx_helpers
        rx_http_def js_def)

lemma translateToTurkish_broken_headline:
  "translateToTurkish broken_env (Suc n) headline =
     Some ([GoogleGet EN TR headline, LibrePost headline EN TR], Inr headline)"
proof -
  have "try_providers broken_env headline =
      ([GoogleGet EN TR headline, LibrePost headline EN TR], Inr headline)"
    by (simp add: try_providers_def try_libre_def translateWithGoogle_def
          translateWithLibreTranslate_def broken_env_def plain_env_def offline_def)
  then show ?thesis
    using translateToTurkish_short [of headline broken_env n]
    by (simp add: stripHtml_broken_headline trim_headline length_headline)
       (simp add: headline_def js_def)
qed

text \<open>
  Claim C1. For every input, whatever the HTML library and the network do,
  \<open>translateToTurkish\<close> settles with a string and not with an error, at every depth the
  call stack allows. Two runs: with an HTML library that throws and no network the
  headline comes back as it is, after one call of each provider; and the text of 501
  times the letter a, whose only chunk is the text itself, comes back as it is without
  a call of a provider, the calls on the chunk ending when the stack is exhausted and
  the \<open>catch\<close> returning the sanitized text.
\<close>

theorem translateToTurkish_always_returns_a_string:
  "(\<exists>calls s. translateToTurkish env (Suc n) txt = Some (calls, Inr s)) \<and>
   translateToTurkish broken_env (Suc n) headline =
     Some ([GoogleGet EN TR headline, LibrePost headline EN TR], Inr headline) \<and>
   translateToTurkish (plain_env proxy google) (Suc n) unbroken = Some ([], Inr unbroken)"
  using translateToTurkish_returns_string [of env n "txt"]
  by (simp only: translateToTurkish_broken_headline translateToTurkish_unbroken simp_thms)

text \<open>
  Claim C4. The chunks are at most 500 characters long when every sentence is
  (\<open>chunks_of_bound\<close>), they are translated in order and joined by single spaces
  (\<open>translateToTurkish_long\<close>, \<open>translate_chunks_all\<close>). A sentence of more than 500
  characters is a chunk of more than 500 characters: for 501 times the letter a, which
  the sanitizer leaves as it is, the only chunk is the text itself; the call on the
  chunk is the call that is being evaluated, and the text comes back untranslated,
  without a call of a provider.
\<close>

theorem chunk_longer_than_limit:
  "stripHtml (plain_env proxy google) unbroken = unbroken \<and>
   maxChunkSize < length unbroken \<and>
   chunks_of unbroken = [unbroken] \<and>
   translateToTurkish (plain_env proxy google) (Suc n) unbroken = Some ([], Inr unbroken)"
  by (simp add: stripHtml_unbroken chunks_of_unbroken unbroken_facts maxChunkSize_def
        translateToTurkish_unbroken del: translateToTurkish.simps(2))

lemma translateToTurkish_first_sentence:
  "translateToTurkish (plain_env offline offline) (Suc n) first_sentence =
     Some ([GoogleGet EN TR first_sentence, LibrePost first_sentence EN TR], Inr first_sentence)"
proof -
  let ?env = "plain_env offline offline"
  have "try_providers ?env first_sentence =
      ([GoogleGet EN TR first_sentence, LibrePost first_sentence EN TR], Inr first_sentence)"
    by (simp add: try_providers_def try_libre_def translateWithGoogle_def
          translateWithLibreTranslate_def plain_env_def offline_def)
  then show ?thesis
    using translateToTurkish_short [of first_sentence ?env n]
    by (simp add: stripHtml_first_sentence trim_inert first_sentence_facts)
qed

text \<open>
  Claim C5. The chunks hold what the sentences hold (\<open>concat_chunks_of\<close>), but the
  sentences need not hold all of the text: what follows the last full stop, question
  mark or exclamation mark is in no sentence. For 499 times the letter a, a full stop
  and the letter b, the only chunk ends at the full stop, and the result of the
  translation has lost the letter b.
\<close>

theorem trailing_fragment_dropped:
  "stripHtml (plain_env offline offline) trailing = trailing \<and>
   maxChunkSize < length trailing \<and>
   chunks_of trailing = [first_sentence] \<and>
   concat (chunks_of trailing) \<noteq> trailing \<and>
   translateToTurkish (plain_env offline offline) (Suc (Suc 0)) trailing =
     Some ([GoogleGet EN TR first_sentence, LibrePost first_sentence EN TR], Inr first_sentence)"
proof -
  let ?env = "plain_env offline offline"
  have a: "trim trailing \<noteq> []" by (simp add: trim_inert trailing_facts)
  have b: "trim (stripHtml ?env trailing) \<noteq> []"
    by (simp add: stripHtml_trailing trim_inert trailing_facts)
  have c: "500 < length (stripHtml ?env trailing)"
    by (simp add: stripHtml_trailing trailing_facts)
  note long = translateToTurkish_long [OF a b c, of "Suc 0",
      unfolded stripHtml_trailing chunks_of_trailing translate_chunks_single
        translateToTurkish_first_sentence]
  have run: "translateToTurkish ?env (Suc (Suc 0)) trailing =
     Some ([GoogleGet EN TR first_sentence, LibrePost first_sentence EN TR], Inr first_sentence)"
    unfolding long by simp
  have "concat (chunks_of trailing) = first_sentence" by (simp add: chunks_of_trailing)
  moreover have "first_sentence \<noteq> trailing" by (simp add: trailing_split(2))
  ultimately have d: "concat (chunks_of trailing) \<noteq> trailing" by simp
  show ?thesis
    using run d by (simp add: stripHtml_trailing trailing_facts maxChunkSize_def chunks_of_trailing
        del: translateToTurkish.simps)
qed

section \<open>Batches\<close>





section \<open>Sentiment\<close>

lemma found_positive [simp]:
  "found rx_positive (js ''prices surge after rally '')"
  "\<not> found rx_positive (js ''hack causes crash '')"
  "\<not> found rx_positive (js ''quarterly report released '')"
  "\<not> found rx_positive (js ''markets today prices crash hard'')"
  "found rx_positive (js ''rally ends in crash '')"
  "\<not> found rx_positive (js ''system upgrade planned '')"
  "found rx_positive (js ''bitcoin up 5% '')"
  by (simp_all add: found_def rx_positive_def rx_helpers js_def)

lemma found_negative [simp]:
  "\<not> found rx_negative (js ''prices surge after rally '')"
  "found rx_negative (js ''hack causes crash '')"
  "\<not> found rx_negative (js ''quarterly report released '')"
  "found rx_negative (js ''markets today prices crash hard'')"
  "found rx_negative (js ''rally ends in crash '')"
  "\<not> found rx_negative (js ''system upgrade planned '')"
  "\<not> found rx_negative (js ''bitcoin up 5% '')"
  by (simp_all add: found_def rx_negative_def rx_helpers js_def)

lemma content_examples:
  "content_of (plain_env proxy google) (js ''prices surge after rally'') None = js ''prices surge after rally ''"
  "content_of (plain_env proxy google) (js ''hack causes crash'') None = js ''hack causes crash ''"
  "content_of (plain_env proxy google) (js ''quarterly report released'') None = js ''quarterly report released ''"
  "content_of (plain_env proxy google) (js ''Markets today'') (Some (js ''prices CRASH hard'')) =
     js ''markets today prices crash hard''"
  "content_of (plain_env proxy google) (js ''rally ends in crash'') None = js ''rally ends in crash ''"
  "content_of (plain_env proxy google) (js ''system upgrade planned'') None = js ''system upgrade planned ''"
  "content_of (plain_env proxy google) (js ''Bitcoin UP 5%'') (Some []) = js ''bitcoin up 5% ''"
  by (simp_all add: content_of_def plain_env_def ascii_lower_def js_def)

text \<open>
  Claim C6. The tagger reads the title, a space and the body (nothing for a missing
  body) after \<open>toLowerCase\<close>; it gives negative when a negative keyword is found there,
  otherwise positive when a positive keyword is found, otherwise neutral; both
  summarizers return its result. It gives positive for "prices surge after rally",
  negative for "hack causes crash" and neutral for "quarterly report released"; a
  keyword in upper case and in the body counts, a negative keyword overrides a positive
  one, and a keyword inside a longer word does not count.
\<close>

theorem sentiment_rule:
  "sentiment_of env title body =
     (if found rx_negative (toLowerCase env (title @ [32] @ (case body of None \<Rightarrow> [] | Some t \<Rightarrow> t)))
      then Negative
      else if found rx_positive (toLowerCase env (title @ [32] @ (case body of None \<Rightarrow> [] | Some t \<Rightarrow> t)))
      then Positive
      else Neutral) \<and>
   sentiment (summarizeInEnglish env title body) = sentiment_of env title body \<and>
   (\<exists>r. summarizeAndTranslate env (Suc n) title body = Some r \<and>
        sentiment r = sentiment_of env title body) \<and>
   sentiment (summarizeInEnglish (plain_env offline offline) (js ''prices surge after rally'') None) = Positive \<and>
   sentiment (summarizeInEnglish (plain_env offline offline) (js ''hack causes crash'') None) = Negative \<and>
   sentiment (summarizeInEnglish (plain_env offline offline) (js ''quarterly report released'') None) = Neutral \<and>
   sentiment (summarizeInEnglish (plain_env offline offline) (js ''Markets today'')
      (Some (js ''prices CRASH hard''))) = Negative \<and>
   sentiment (summarizeInEnglish (plain_env offline offline) (js ''Bitcoin UP 5%'') (Some [])) = Positive \<and>
   sentiment (summarizeInEnglish (plain_env offline offline) (js ''rally ends in crash'') None) = Negative \<and>
   sentiment (summarizeInEnglish (plain_env offline offline) (js ''system upgrade planned'') None) = Neutral"
proof -
  have rule: "sentiment_of env title body =
     (if found rx_negative (toLowerCase env (title @ [32] @ (case body of None \<Rightarrow> [] | Some t \<Rightarrow> t)))
      then Negative
      else if found rx_positive (toLowerCase env (title @ [32] @ (case body of None \<Rightarrow> [] | Some t \<Rightarrow> t)))
      then Positive
      else Neutral)"
    by (simp add: sentiment_of_def content_of_def Let_def)
  obtain calls s where "translateToTurkish env (Suc n) title = Some (calls, Inr s)"
    using translateToTurkish_returns_string [of env n title] by blast
  then have t: "\<exists>r. summarizeAndTranslate env (Suc n) title body = Some r \<and>
      sentiment r = sentiment_of env title body"
    by (simp add: summarizeAndTranslate_def del: translateToTurkish.simps)
  have ex: "sentiment_of (plain_env offline offline) (js ''prices surge after rally'') None = Positive"
    "sentiment_of (plain_env offline offline) (js ''hack causes crash'') None = Negative"
    "sentiment_of (plain_env offline offline) (js ''quarterly report released'') None = Neutral"
    "sentiment_of (plain_env offline offline) (js ''Markets today'') (Some (js ''prices CRASH hard'')) = Negative"
    "sentiment_of (plain_env offline offline) (js ''Bitcoin UP 5%'') (Some []) = Positive"
    "sentiment_of (plain_env offline offline) (js ''rally ends in crash'') None = Negative"
    "sentiment_of (plain_env offline offline) (js ''system upgrade planned'') None = Neutral"
    by (simp_all add: sentiment_of_def Let_def content_examples)
  show ?thesis
    using rule t by (simp only: summarizeInEnglish_def SummaryWithSentiment.simps ex simp_thms)
qed

section \<open>The HTTP endpoint\<close>

lemma request_json_again: "\<exists>e. fst (request_json (snd (request_json req))) = Inl e"
  by (cases "req_body req") (auto simp: request_json_def)

lemma POST_parsed:
  assumes "\<not> bodyUsed req" "req_body req = Json parsed"
  shows "POST env req = (case POST_try env parsed of Inr r \<Rightarrow> Inr r | Inl err \<Rightarrow> Inl TypeError)"
  using assms by (simp add: POST_def request_json_def split: sum.splits)

lemma POST_try_not_500: "POST_try env parsed \<noteq> Inr (Reply 500 e t)"
  by (auto simp: POST_try_def Let_def split: sum.splits option.splits json.splits)

lemma POST_never_replies_500: "POST env req \<noteq> Inr (Reply 500 e t)"
proof -
  obtain first req1 where r: "request_json req = (first, req1)" by (cases "request_json req")
  obtain err req2 where s: "request_json req1 = (Inl err, req2)"
    using request_json_again [of req] r by (cases "request_json req1") auto
  show ?thesis
    using POST_try_not_500 [of env _ e t]
    by (auto simp: POST_def r s split: sum.splits)
qed

lemma POST_invalid_text:
  assumes "\<not> bodyUsed req" "req_body req = Json parsed" "parsed \<noteq> JNull"
    and "\<forall>t. text_of parsed = Inr (Some (JStr t)) \<longrightarrow> trim t = []"
  shows "POST env req = Inr (Reply 400 (Some (js ''Invalid text provided'')) None)"
proof -
  have "POST_try env parsed = Inr (Reply 400 (Some (js ''Invalid text provided'')) None)"
    using assms(3,4)
    by (auto simp: POST_try_def text_of_def trim_Nil split: sum.splits option.splits json.splits)
  then show ?thesis using assms(1,2) by (simp add: POST_parsed)
qed

lemma POST_google_failure:
  assumes "\<not> bodyUsed req" "req_body req = Json (JObj kvs)" "property (js ''text'') kvs = Some (JStr t)"
    and "trim t \<noteq> []" "trim (route_stripHtml env t) \<noteq> []"
    and "route_translateWithGoogle env (route_stripHtml env t) = None"
  shows "POST env req = Inl TypeError"
proof -
  have "t \<noteq> []" using assms(4) by (auto simp: trim_Nil)
  then have "POST_try env (JObj kvs) = Inl GoogleFailed"
    using assms(3-6) by (simp add: POST_try_def text_of_def)
  then show ?thesis using assms(1,2) by (simp add: POST_parsed)
qed

lemma route_stripHtml_headline: "route_stripHtml (plain_env proxy google) headline = headline"
proof -
  have "clean_whitespace headline = headline"
    by (simp add: headline_def sanitize_defs rx_helpers js_def)
  then show ?thesis by (simp add: route_stripHtml_def plain_env_def or_else_def)
qed

text \<open>
  Claim C9. A text that is missing, not a string or blank is answered with status 400
  (\<open>POST_invalid_text\<close>). When the provider fails, the endpoint is to answer with status
  500, an error and the cleaned original text; the handler rejects instead
  (\<open>POST_google_failure\<close>, \<open>POST_never_replies_500\<close>): its \<open>catch\<close> reads the body of
  the request a second time, which fails. Here the request carries the headline and
  the Google endpoint cannot be reached.
\<close>

theorem POST_provider_failure_rejects:
  "POST (plain_env offline offline) (text_request (JStr headline)) = Inl TypeError"
proof -
  let ?env = "plain_env offline offline"
  have g: "route_translateWithGoogle ?env headline = None"
    by (simp add: route_translateWithGoogle_def plain_env_def offline_def)
  have h: "headline \<noteq> []" by (simp add: headline_def js_def)
  have "POST_try ?env (JObj [(js ''text'', JStr headline)]) = Inl GoogleFailed"
    using h by (simp add: POST_try_def text_of_def property_def route_stripHtml_headline
          trim_headline g)
  then show ?thesis
    by (simp add: POST_parsed text_request_def)
qed

end
